theory Spec2Isabelle
  imports Main "HOL-Library.Word"
begin

section \<open>The secret monitor of pkg/route/secret\<close>

text \<open>
  The package keeps one \<open>singleItemMonitor\<close> per watched secret and hands out
  registrations to the listeners of that secret. \<open>secretMonitor\<close> owns the map from
  \<open>ObjectKey\<close> to monitor; a \<open>singleItemMonitor\<close> owns one shared informer, a handler
  counter, a stopped flag and a stop channel.

  The shared informer (\<open>cache.SharedInformer\<close> of client-go) is an interface of an
  external library. It is a parameter of the model: a record of its operations over
  an arbitrary informer state \<open>'i\<close>. Every theorem holds for every such record.

  Every method of the two types takes the lock of its receiver for its whole body, so
  a call is one atomic step from state to state. Logging has no effect on the state
  and is left out.
\<close>

subsection \<open>Data\<close>

record ObjectKey =
  Namespace :: string
  Name :: string

text \<open>Event handlers and the informer's own registration handles are opaque values.\<close>

type_synonym ResourceEventHandler = nat
type_synonym ResourceEventHandlerRegistration = nat

text \<open>
  The errors built with \<open>fmt.Errorf\<close> in the two source files, one constructor per
  message, and \<open>InformerError\<close> for an error returned by the informer or its store.
\<close>

datatype error =
    SecretHandlerIsNil
  | MonitorDoesNotExist ObjectKey
  | SecretNotInCache string
  | UnexpectedType
  | AddToStoppedInformer ResourceEventHandler
  | RemoveFromStoppedInformer ResourceEventHandlerRegistration
  | InformerError nat

text \<open>
  A \<open>*v1.Secret\<close> is a pointer: \<open>None\<close> is the nil pointer, \<open>Some\<close> a secret.

  What the informer's store holds under a key (\<open>interface{}\<close> in the source): the nil
  interface value, a \<open>*v1.Secret\<close>, or an object of another type. The type assertion
  \<open>uncast.(*v1.Secret)\<close> succeeds on every \<open>SecretItem\<close>, the nil pointer included, and
  fails on the other two.
\<close>

type_synonym Secret = string

type_synonym SecretPtr = "Secret option"

datatype item = NilItem | SecretItem SecretPtr | OtherItem nat

text \<open>
  The operations of \<open>cache.SharedInformer\<close> the package calls.
  \<open>NewSharedInformer\<close> stands for \<open>cache.NewSharedInformer\<close> over the list-watch of one
  secret; \<open>GetByKey\<close> for \<open>GetStore().GetByKey\<close>, returning \<open>(item, exists, err)\<close>.
\<close>

record 'i SharedInformer =
  NewSharedInformer :: "string \<Rightarrow> string \<Rightarrow> 'i"
  InformerAddEventHandler ::
    "ResourceEventHandler \<Rightarrow> 'i \<Rightarrow> (error + ResourceEventHandlerRegistration) \<times> 'i"
  InformerRemoveEventHandler ::
    "ResourceEventHandlerRegistration \<Rightarrow> 'i \<Rightarrow> error option \<times> 'i"
  GetByKey :: "string \<Rightarrow> 'i \<Rightarrow> item \<times> bool \<times> error option"
  InformerHasSynced :: "'i \<Rightarrow> bool"

datatype chan = Open | Closed

record 'i singleItemMonitor =
  key :: ObjectKey
  informer :: 'i
  numHandlers :: "32 word"
  stopped :: bool
  stopCh :: chan

text \<open>
  \<open>secretEventHandlerRegistration\<close>: the informer's registration and the key of the
  monitor that issued it. A \<open>SecretEventHandlerRegistration\<close> interface value is an
  option of it, \<open>None\<close> being nil. The struct is unexported and every registration the
  package returns points to one, so an interface value that wraps a nil pointer does
  not arise and has no value here.
\<close>

record secretEventHandlerRegistration =
  handlerRegistration :: ResourceEventHandlerRegistration
  objectKey :: ObjectKey

type_synonym SecretEventHandlerRegistration = "secretEventHandlerRegistration option"

text \<open>
  A call either returns or panics. A panic ends the modelled run; the state it leaves
  behind is not followed.
\<close>

datatype 'a outcome = Panic | Return 'a

subsection \<open>singleItemMonitor\<close>

definition NewObjectKey :: "string \<Rightarrow> string \<Rightarrow> ObjectKey" where
  "NewObjectKey namespace name = \<lparr>Namespace = namespace, Name = name\<rparr>"

definition newSingleItemMonitor :: "ObjectKey \<Rightarrow> 'i \<Rightarrow> 'i singleItemMonitor" where
  "newSingleItemMonitor k si =
     \<lparr>key = k, informer = si, numHandlers = 0, stopped = False, stopCh = Open\<rparr>"

definition GetKey :: "secretEventHandlerRegistration \<Rightarrow> ObjectKey" where
  "GetKey r = objectKey r"

definition GetHandler :: "secretEventHandlerRegistration \<Rightarrow> ResourceEventHandlerRegistration" where
  "GetHandler r = handlerRegistration r"

definition HasSynced :: "'i SharedInformer \<Rightarrow> 'i singleItemMonitor \<Rightarrow> bool" where
  "HasSynced I i = InformerHasSynced I (informer i)"

text \<open>
  \<open>StopInformer\<close>: false on a stopped monitor; otherwise it sets the flag and closes
  the channel. Closing a closed channel panics in Go; the flag is set before.
\<close>

definition StopInformer :: "'i singleItemMonitor \<Rightarrow> (bool \<times> 'i singleItemMonitor) outcome" where
  "StopInformer i =
     (if stopped i then Return (False, i)
      else (case stopCh i of
              Closed \<Rightarrow> Panic
            | Open \<Rightarrow> Return (True, i\<lparr>stopped := True, stopCh := Closed\<rparr>)))"

definition AddEventHandler ::
  "'i SharedInformer \<Rightarrow> ResourceEventHandler \<Rightarrow> 'i singleItemMonitor \<Rightarrow>
     (error + secretEventHandlerRegistration) \<times> 'i singleItemMonitor" where
  "AddEventHandler I handler i =
     (if stopped i then (Inl (AddToStoppedInformer handler), i)
      else (case InformerAddEventHandler I handler (informer i) of
              (Inl err, si') \<Rightarrow> (Inl err, i\<lparr>informer := si'\<rparr>)
            | (Inr registration, si') \<Rightarrow>
                (Inr \<lparr>handlerRegistration = registration, objectKey = key i\<rparr>,
                 i\<lparr>informer := si', numHandlers := numHandlers i + 1\<rparr>)))"

text \<open>
  \<open>RemoveEventHandler\<close> calls \<open>handle.GetHandler()\<close> on both paths without a nil check:
  on a nil interface value that is a nil dereference.
\<close>

definition RemoveEventHandler ::
  "'i SharedInformer \<Rightarrow> SecretEventHandlerRegistration \<Rightarrow> 'i singleItemMonitor \<Rightarrow>
     (error option \<times> 'i singleItemMonitor) outcome" where
  "RemoveEventHandler I handle i =
     (case handle of
        None \<Rightarrow> Panic
      | Some h \<Rightarrow>
          (if stopped i then Return (Some (RemoveFromStoppedInformer (GetHandler h)), i)
           else (case InformerRemoveEventHandler I (GetHandler h) (informer i) of
                   (Some err, si') \<Rightarrow> Return (Some err, i\<lparr>informer := si'\<rparr>)
                 | (None, si') \<Rightarrow>
                     Return (None, i\<lparr>informer := si', numHandlers := numHandlers i - 1\<rparr>))))"

definition GetItem :: "'i SharedInformer \<Rightarrow> 'i singleItemMonitor \<Rightarrow> item \<times> bool \<times> error option" where
  "GetItem I i =
     (let keyFunc = Namespace (key i) @ ''/'' @ Name (key i)
      in GetByKey I keyFunc (informer i))"

subsection \<open>secretMonitor\<close>

text \<open>
  The map holds pointers. The store \<open>heap\<close> lists every monitor ever allocated, the
  address of a monitor being its index; \<open>monitors\<close> maps a key to an address.
\<close>

record 'i secretMonitor =
  monitors :: "ObjectKey \<rightharpoonup> nat"
  heap :: "'i singleItemMonitor list"

definition NewSecretMonitor :: "'i secretMonitor" where
  "NewSecretMonitor = \<lparr>monitors = Map.empty, heap = []\<rparr>"

text \<open>
  \<open>addSecretEventHandler\<close>; \<open>createInformerFn\<close> is \<open>None\<close> for nil, else the informer
  the function returns. The goroutine running \<open>StartInformer\<close> acts on the informer
  only and is not part of the model.
\<close>

definition addSecretEventHandler ::
  "'i SharedInformer \<Rightarrow> string \<Rightarrow> string \<Rightarrow> ResourceEventHandler \<Rightarrow> 'i option \<Rightarrow>
     'i secretMonitor \<Rightarrow> (error + secretEventHandlerRegistration) \<times> 'i secretMonitor" where
  "addSecretEventHandler I namespace secretName handler createInformerFn s =
     (let k = NewObjectKey namespace secretName;
          (a, s1) =
            (case monitors s k of
               Some a \<Rightarrow> (a, s)
             | None \<Rightarrow>
                 (let sharedInformer =
                        (case createInformerFn of
                           None \<Rightarrow> NewSharedInformer I namespace secretName
                         | Some si \<Rightarrow> si);
                      m = newSingleItemMonitor k sharedInformer;
                      a = length (heap s)
                  in (a, s\<lparr>heap := heap s @ [m], monitors := (monitors s)(k \<mapsto> a)\<rparr>)));
          (r, m') = AddEventHandler I handler (heap s1 ! a)
      in (r, s1\<lparr>heap := (heap s1)[a := m']\<rparr>))"

definition AddSecretEventHandler ::
  "'i SharedInformer \<Rightarrow> string \<Rightarrow> string \<Rightarrow> ResourceEventHandler \<Rightarrow>
     'i secretMonitor \<Rightarrow> (error + secretEventHandlerRegistration) \<times> 'i secretMonitor" where
  "AddSecretEventHandler I namespace secretName handler s =
     addSecretEventHandler I namespace secretName handler None s"

definition RemoveSecretEventHandler ::
  "'i SharedInformer \<Rightarrow> SecretEventHandlerRegistration \<Rightarrow> 'i secretMonitor \<Rightarrow>
     (error option \<times> 'i secretMonitor) outcome" where
  "RemoveSecretEventHandler I hr s =
     (case hr of
        None \<Rightarrow> Return (Some SecretHandlerIsNil, s)
      | Some h \<Rightarrow>
          (let k = GetKey h in
           case monitors s k of
             None \<Rightarrow> Return (None, s)
           | Some a \<Rightarrow>
               (case RemoveEventHandler I hr (heap s ! a) of
                  Panic \<Rightarrow> Panic
                | Return (Some err, m') \<Rightarrow> Return (Some err, s\<lparr>heap := (heap s)[a := m']\<rparr>)
                | Return (None, m') \<Rightarrow>
                    (if sint (numHandlers m') \<le> 0 then
                       (case StopInformer m' of
                          Panic \<Rightarrow> Panic
                        | Return (b, m'') \<Rightarrow>
                            Return (None, s\<lparr>heap := (heap s)[a := m''],
                                            monitors := (monitors s)(k := None)\<rparr>))
                     else Return (None, s\<lparr>heap := (heap s)[a := m']\<rparr>)))))"

text \<open>
  \<open>GetSecret\<close>. The source passes \<open>secretName\<close> to \<open>GetItem\<close>; \<open>GetItem\<close> as defined takes
  no argument and builds the store key from the monitor's own key. The checks follow
  the source's order: absent first, then the store's error, then the type.
\<close>

definition GetSecret ::
  "'i SharedInformer \<Rightarrow> SecretEventHandlerRegistration \<Rightarrow> 'i secretMonitor \<Rightarrow> error + SecretPtr" where
  "GetSecret I hr s =
     (case hr of
        None \<Rightarrow> Inl SecretHandlerIsNil
      | Some h \<Rightarrow>
          (let k = GetKey h; secretName = Name k in
           case monitors s k of
             None \<Rightarrow> Inl (MonitorDoesNotExist k)
           | Some a \<Rightarrow>
               (case GetItem I (heap s ! a) of
                  (uncast, exists, err) \<Rightarrow>
                    if \<not> exists then Inl (SecretNotInCache secretName)
                    else (case err of
                            Some e \<Rightarrow> Inl e
                          | None \<Rightarrow>
                              (case uncast of
                                 SecretItem secret \<Rightarrow> Inr secret
                               | _ \<Rightarrow> Inl UnexpectedType)))))"

text \<open>The channel is closed exactly on stopped monitors; every call keeps it so.\<close>

definition chanAgrees :: "'i singleItemMonitor \<Rightarrow> bool" where
  "chanAgrees i = (stopped i = (stopCh i = Closed))"

subsection \<open>Sequences of calls on one monitor\<close>

text \<open>
  A caller of a \<open>singleItemMonitor\<close> issues the three calls in any order; a run is the
  list of their results and the monitor they leave. A panic ends the run.
\<close>

datatype monitorCall =
    CallStopInformer
  | CallAddEventHandler ResourceEventHandler
  | CallRemoveEventHandler SecretEventHandlerRegistration

datatype monitorResult =
    StopResult bool
  | AddResult "error + secretEventHandlerRegistration"
  | RemoveResult "error option"

definition monitorStep ::
  "'i SharedInformer \<Rightarrow> monitorCall \<Rightarrow> 'i singleItemMonitor \<Rightarrow>
     (monitorResult \<times> 'i singleItemMonitor) outcome" where
  "monitorStep I c i =
     (case c of
        CallStopInformer \<Rightarrow>
          (case StopInformer i of Panic \<Rightarrow> Panic | Return (b, i') \<Rightarrow> Return (StopResult b, i'))
      | CallAddEventHandler h \<Rightarrow>
          (case AddEventHandler I h i of (r, i') \<Rightarrow> Return (AddResult r, i'))
      | CallRemoveEventHandler hr \<Rightarrow>
          (case RemoveEventHandler I hr i of
             Panic \<Rightarrow> Panic
           | Return (e, i') \<Rightarrow> Return (RemoveResult e, i')))"

fun monitorRun ::
  "'i SharedInformer \<Rightarrow> monitorCall list \<Rightarrow> 'i singleItemMonitor \<Rightarrow>
     (monitorResult list \<times> 'i singleItemMonitor) outcome" where
  "monitorRun I [] i = Return ([], i)"
| "monitorRun I (c # cs) i =
     (case monitorStep I c i of
        Panic \<Rightarrow> Panic
      | Return (r, i') \<Rightarrow>
          (case monitorRun I cs i' of
             Panic \<Rightarrow> Panic
           | Return (rs, i'') \<Rightarrow> Return (r # rs, i'')))"

fun addSucceeded :: "monitorResult \<Rightarrow> bool" where
  "addSucceeded (AddResult (Inr r)) = True"
| "addSucceeded _ = False"

fun removeSucceeded :: "monitorResult \<Rightarrow> bool" where
  "removeSucceeded (RemoveResult None) = True"
| "removeSucceeded _ = False"

definition successfulAdds :: "monitorResult list \<Rightarrow> nat" where
  "successfulAdds rs = length (filter addSucceeded rs)"

definition successfulRemoves :: "monitorResult list \<Rightarrow> nat" where
  "successfulRemoves rs = length (filter removeSucceeded rs)"

subsection \<open>An informer for the examples\<close>

text \<open>
  A small informer to run the definitions on. It keeps the handles it has issued and
  one cache answer. Like the shared informer of client-go while it runs, it accepts
  every handler, and its store never reports an error of its own unless the example
  puts one there. It reports an error when asked to remove a handle it never issued
  and, like client-go, no error when asked to remove a handle it has already removed.
\<close>

record exampleInformer =
  listeners :: "ResourceEventHandlerRegistration list"
  nextHandle :: ResourceEventHandlerRegistration
  cached :: "item \<times> bool \<times> error option"

definition exampleNew :: "item \<times> bool \<times> error option \<Rightarrow> exampleInformer" where
  "exampleNew c = \<lparr>listeners = [], nextHandle = 0, cached = c\<rparr>"

definition exampleSharedInformer :: "exampleInformer SharedInformer" where
  "exampleSharedInformer =
     \<lparr>NewSharedInformer = (\<lambda>namespace name. exampleNew (NilItem, False, None)),
      InformerAddEventHandler =
        (\<lambda>h i. (Inr (nextHandle i),
                i\<lparr>listeners := nextHandle i # listeners i,
                  nextHandle := nextHandle i + 1\<rparr>)),
      InformerRemoveEventHandler =
        (\<lambda>r i. if nextHandle i \<le> r then (Some (InformerError 1), i)
               else (None, i\<lparr>listeners := removeAll r (listeners i)\<rparr>)),
      GetByKey = (\<lambda>k i. cached i),
      InformerHasSynced = (\<lambda>i. True)\<rparr>"

definition exampleKey :: ObjectKey where
  "exampleKey = NewObjectKey ''ns'' ''secret''"

abbreviation exampleMonitor :: "exampleInformer singleItemMonitor" where
  "exampleMonitor \<equiv> newSingleItemMonitor exampleKey (exampleNew (NilItem, False, None))"

text \<open>
  The registration the example informer issues for its \<open>n\<close>-th handler, and the states
  of a \<open>secretMonitor\<close> after one and after two handlers have been added for the
  example key.
\<close>

definition exampleRegistration :: "nat \<Rightarrow> secretEventHandlerRegistration" where
  "exampleRegistration n = \<lparr>handlerRegistration = n, objectKey = exampleKey\<rparr>"

definition exampleState1 :: "exampleInformer secretMonitor" where
  "exampleState1 =
     \<lparr>monitors = [exampleKey \<mapsto> 0],
      heap = [exampleMonitor\<lparr>informer := \<lparr>listeners = [0], nextHandle = 1,
                                           cached = (NilItem, False, None)\<rparr>,
                             numHandlers := 1\<rparr>]\<rparr>"

definition exampleState2 :: "exampleInformer secretMonitor" where
  "exampleState2 =
     \<lparr>monitors = [exampleKey \<mapsto> 0],
      heap = [exampleMonitor\<lparr>informer := \<lparr>listeners = [1, 0], nextHandle = 2,
                                           cached = (NilItem, False, None)\<rparr>,
                             numHandlers := 2\<rparr>]\<rparr>"

text \<open>
  The state after one handler has been added for the example key through an informer
  whose store holds the secret.
\<close>

definition exampleState3 :: "exampleInformer secretMonitor" where
  "exampleState3 =
     \<lparr>monitors = [exampleKey \<mapsto> 0],
      heap = [newSingleItemMonitor exampleKey
                (exampleNew (SecretItem (Some ''payload''), True, None))
              \<lparr>informer := \<lparr>listeners = [0], nextHandle = 1,
                             cached = (SecretItem (Some ''payload''), True, None)\<rparr>,
               numHandlers := 1\<rparr>]\<rparr>"

subsection \<open>Sequences of calls on the secret monitor\<close>

text \<open>
  A caller of the \<open>secretMonitor\<close> issues its three calls in any order; the test hook
  \<open>createInformerFn\<close> of \<open>addSecretEventHandler\<close> is part of the call. A run is the list
  of the results and the state they leave. A panic ends the run.
\<close>

datatype 'i call =
    CallAddSecretEventHandler string string ResourceEventHandler "'i option"
  | CallRemoveSecretEventHandler SecretEventHandlerRegistration
  | CallGetSecret SecretEventHandlerRegistration

datatype result =
    AddSecretResult "error + secretEventHandlerRegistration"
  | RemoveSecretResult "error option"
  | GetSecretResult "error + SecretPtr"

definition step ::
  "'i SharedInformer \<Rightarrow> 'i call \<Rightarrow> 'i secretMonitor \<Rightarrow> (result \<times> 'i secretMonitor) outcome" where
  "step I c s =
     (case c of
        CallAddSecretEventHandler namespace secretName handler createInformerFn \<Rightarrow>
          (case addSecretEventHandler I namespace secretName handler createInformerFn s of
             (r, s') \<Rightarrow> Return (AddSecretResult r, s'))
      | CallRemoveSecretEventHandler hr \<Rightarrow>
          (case RemoveSecretEventHandler I hr s of
             Panic \<Rightarrow> Panic
           | Return (e, s') \<Rightarrow> Return (RemoveSecretResult e, s'))
      | CallGetSecret hr \<Rightarrow> Return (GetSecretResult (GetSecret I hr s), s))"

fun run ::
  "'i SharedInformer \<Rightarrow> 'i call list \<Rightarrow> 'i secretMonitor \<Rightarrow>
     (result list \<times> 'i secretMonitor) outcome" where
  "run I [] s = Return ([], s)"
| "run I (c # cs) s =
     (case step I c s of
        Panic \<Rightarrow> Panic
      | Return (r, s') \<Rightarrow>
          (case run I cs s' of
             Panic \<Rightarrow> Panic
           | Return (rs, s'') \<Rightarrow> Return (r # rs, s'')))"

fun addSecretSucceeded :: "result \<Rightarrow> bool" where
  "addSecretSucceeded (AddSecretResult (Inr r)) = True"
| "addSecretSucceeded _ = False"

fun addSecretFailed :: "result \<Rightarrow> bool" where
  "addSecretFailed (AddSecretResult (Inl e)) = True"
| "addSecretFailed _ = False"

fun removeSecretSucceeded :: "result \<Rightarrow> bool" where
  "removeSecretSucceeded (RemoveSecretResult None) = True"
| "removeSecretSucceeded _ = False"

definition successfulSecretAdds :: "result list \<Rightarrow> nat" where
  "successfulSecretAdds rs = length (filter addSecretSucceeded rs)"

definition successfulSecretRemoves :: "result list \<Rightarrow> nat" where
  "successfulSecretRemoves rs = length (filter removeSecretSucceeded rs)"

text \<open>
  The calls that concern one key: adding a handler for it, removing a registration
  that carries it; a nil removal and a lookup touch no monitor.
\<close>

fun forKey :: "ObjectKey \<Rightarrow> 'i call \<Rightarrow> bool" where
  "forKey k (CallAddSecretEventHandler namespace secretName handler createInformerFn) =
     (NewObjectKey namespace secretName = k)"
| "forKey k (CallRemoveSecretEventHandler None) = True"
| "forKey k (CallRemoveSecretEventHandler (Some h)) = (GetKey h = k)"
| "forKey k (CallGetSecret hr) = True"

text \<open>No teardown of the key during a run: after every call the key is in the map.\<close>

fun keptThroughout ::
  "'i SharedInformer \<Rightarrow> ObjectKey \<Rightarrow> 'i call list \<Rightarrow> 'i secretMonitor \<Rightarrow> bool" where
  "keptThroughout I k [] s = True"
| "keptThroughout I k (c # cs) s =
     (case step I c s of
        Panic \<Rightarrow> False
      | Return (r, s') \<Rightarrow> monitors s' k \<noteq> None \<and> keptThroughout I k cs s')"

text \<open>
  The shape of the states the calls build. Every mapped address is allocated and holds
  a running monitor that carries the key it is mapped from; on every allocated monitor
  the stop channel agrees with the stopped flag; and an allocated monitor that is not
  the mapped monitor of its key has been stopped.
\<close>

definition wellFormed :: "'i secretMonitor \<Rightarrow> bool" where
  "wellFormed s =
     ((\<forall>k a. monitors s k = Some a \<longrightarrow>
         a < length (heap s) \<and> key (heap s ! a) = k \<and> \<not> stopped (heap s ! a)) \<and>
      (\<forall>a < length (heap s).
         chanAgrees (heap s ! a) \<and>
         (stopped (heap s ! a) \<or> monitors s (key (heap s ! a)) = Some a)))"

text \<open>The counters of the mapped monitors lie between \<open>lo\<close> and \<open>n\<close>.\<close>

definition countersBetween :: "int \<Rightarrow> nat \<Rightarrow> 'i secretMonitor \<Rightarrow> bool" where
  "countersBetween lo n s =
     (\<forall>k a. monitors s k = Some a \<longrightarrow>
        lo \<le> sint (numHandlers (heap s ! a)) \<and> sint (numHandlers (heap s ! a)) \<le> int n)"

text \<open>
  An informer accepts when \<open>AddEventHandler\<close> never refuses a handler. The shared
  informer of client-go, which \<open>AddSecretEventHandler\<close> builds, refuses a handler only
  once it has stopped; the informer of a monitor stops only when \<open>StopInformer\<close> closes
  the stop channel, and from then on the monitor's \<open>AddEventHandler\<close> returns its own
  error without calling the informer.
\<close>

definition accepting :: "'i SharedInformer \<Rightarrow> bool" where
  "accepting I = (\<forall>h i. \<exists>reg i'. InformerAddEventHandler I h i = (Inr reg, i'))"

text \<open>The example run: two handlers added for the example key, the first removed.\<close>

definition exampleCalls :: "exampleInformer call list" where
  "exampleCalls =
     [CallAddSecretEventHandler ''ns'' ''secret'' 1 None,
      CallAddSecretEventHandler ''ns'' ''secret'' 2 None,
      CallRemoveSecretEventHandler (Some (exampleRegistration 0))]"

definition exampleResults :: "result list" where
  "exampleResults =
     [AddSecretResult (Inr (exampleRegistration 0)),
      AddSecretResult (Inr (exampleRegistration 1)),
      RemoveSecretResult None]"

definition exampleFinal :: "exampleInformer secretMonitor" where
  "exampleFinal =
     \<lparr>monitors = [exampleKey \<mapsto> 0],
      heap = [exampleMonitor\<lparr>informer := \<lparr>listeners = [1], nextHandle = 2,
                                           cached = (NilItem, False, None)\<rparr>,
                             numHandlers := 1\<rparr>]\<rparr>"

text \<open>
  What a call can do to the state, \<open>r\<close> being its result: nothing; rewrite the mapped
  monitor of a key, keeping its key, flag and channel and moving its counter by the
  result; allocate a running monitor for an unmapped key; or stop the mapped monitor of
  a key and delete the entry.
\<close>

inductive effect :: "'i secretMonitor \<Rightarrow> result \<Rightarrow> 'i secretMonitor \<Rightarrow> bool" where
  unchanged: "effect s r s"
| updated:
    "monitors s k = Some a \<Longrightarrow>
     key m' = key (heap s ! a) \<Longrightarrow>
     stopped m' = stopped (heap s ! a) \<Longrightarrow>
     stopCh m' = stopCh (heap s ! a) \<Longrightarrow>
     numHandlers m' =
       numHandlers (heap s ! a) + (if addSecretSucceeded r then 1 else 0)
         - (if removeSecretSucceeded r then 1 else 0) \<Longrightarrow>
     (removeSecretSucceeded r \<longrightarrow> 0 < sint (numHandlers m')) \<Longrightarrow>
     effect s r (s\<lparr>heap := (heap s)[a := m']\<rparr>)"
| allocated:
    "monitors s k = None \<Longrightarrow>
     key m' = k \<Longrightarrow>
     \<not> stopped m' \<Longrightarrow>
     stopCh m' = Open \<Longrightarrow>
     numHandlers m' = (if addSecretFailed r then 0 else 1) \<Longrightarrow>
     effect s r (s\<lparr>heap := heap s @ [m'], monitors := (monitors s)(k \<mapsto> length (heap s))\<rparr>)"
| tornDown:
    "monitors s k = Some a \<Longrightarrow>
     key m' = k \<Longrightarrow>
     stopped m' \<Longrightarrow>
     stopCh m' = Closed \<Longrightarrow>
     effect s r (s\<lparr>heap := (heap s)[a := m'], monitors := (monitors s)(k := None)\<rparr>)"

section \<open>Properties of singleItemMonitor\<close>

subsection \<open>Signed reading of the 32-bit counter\<close>

lemma sint_ge32: "- 2147483648 \<le> sint (x::32 word)"
  using sint_ge [of x] by simp

lemma sint_lt32: "sint (x::32 word) < 2147483648"
  using sint_lt [of x] by simp

lemma sint_inc: "sint (x::32 word) < 2147483647 \<Longrightarrow> sint (x + 1) = sint x + 1"
  using sint_ge32 [of x]
  by (simp add: sint_word_add signed_take_bit_int_eq_self)

lemma sint_dec: "- 2147483648 < sint (x::32 word) \<Longrightarrow> sint (x - 1) = sint x - 1"
  using sint_lt32 [of x]
  by (simp add: sint_word_diff signed_take_bit_int_eq_self)

lemma sint_of_int32:
  "- 2147483648 \<le> k \<Longrightarrow> k < 2147483648 \<Longrightarrow> sint (word_of_int k :: 32 word) = k"
  by (simp add: sint_sbintrunc' signed_take_bit_int_eq_self)

subsection \<open>The stopped flag and the stop channel\<close>

lemma chanAgrees_new: "chanAgrees (newSingleItemMonitor k si)"
  by (simp add: chanAgrees_def newSingleItemMonitor_def)

lemma StopInformer_cases:
  "StopInformer i = Return (b, i') \<Longrightarrow>
     (stopped i \<and> \<not> b \<and> i' = i) \<or>
     (\<not> stopped i \<and> b \<and> i' = i\<lparr>stopped := True, stopCh := Closed\<rparr>)"
  by (auto simp: StopInformer_def split: if_splits chan.splits)

lemma AddEventHandler_fields:
  "AddEventHandler I h i = (r, i') \<Longrightarrow>
     stopped i' = stopped i \<and> stopCh i' = stopCh i \<and> key i' = key i"
  by (auto simp: AddEventHandler_def split: if_splits prod.splits sum.splits)

lemma RemoveEventHandler_fields:
  "RemoveEventHandler I hr i = Return (e, i') \<Longrightarrow>
     stopped i' = stopped i \<and> stopCh i' = stopCh i \<and> key i' = key i"
  by (auto simp: RemoveEventHandler_def split: if_splits prod.splits option.splits)

lemma monitorStep_chanAgrees:
  "monitorStep I c i = Return (r, i') \<Longrightarrow> chanAgrees i \<Longrightarrow> chanAgrees i'"
  by (cases c)
     (auto simp: monitorStep_def chanAgrees_def
           split: outcome.splits prod.splits
           dest: StopInformer_cases AddEventHandler_fields RemoveEventHandler_fields)

lemma monitorStep_stopped:
  "monitorStep I c i = Return (r, i') \<Longrightarrow> stopped i \<Longrightarrow> stopped i'"
  by (cases c)
     (auto simp: monitorStep_def
           split: outcome.splits prod.splits
           dest: StopInformer_cases AddEventHandler_fields RemoveEventHandler_fields)

lemma monitorRun_chanAgrees:
  "monitorRun I cs i = Return (rs, i') \<Longrightarrow> chanAgrees i \<Longrightarrow> chanAgrees i'"
proof (induction cs arbitrary: i rs)
  case Nil
  then show ?case by simp
next
  case (Cons c cs)
  then show ?case
    by (auto split: outcome.splits prod.splits dest: monitorStep_chanAgrees)
qed

lemma monitorRun_stopped:
  "monitorRun I cs i = Return (rs, i') \<Longrightarrow> stopped i \<Longrightarrow> stopped i'"
proof (induction cs arbitrary: i rs)
  case Nil
  then show ?case by simp
next
  case (Cons c cs)
  then show ?case
    by (auto split: outcome.splits prod.splits dest: monitorStep_stopped)
qed

subsection \<open>StopInformer\<close>

text \<open>
  Claim C4. On every monitor reached from \<open>newSingleItemMonitor\<close> by calls of the three
  methods and not yet stopped, \<open>StopInformer\<close> returns true, sets the stopped flag and
  closes the stop channel, changing nothing else. From then on, whatever calls follow,
  the monitor stays stopped and \<open>StopInformer\<close> returns false and leaves it as it is.
\<close>

theorem StopInformer_idempotent:
  assumes "monitorRun I cs (newSingleItemMonitor k si) = Return (rs, i)"
    and "\<not> stopped i"
  shows "StopInformer i = Return (True, i\<lparr>stopped := True, stopCh := Closed\<rparr>) \<and>
         StopInformer (i\<lparr>stopped := True, stopCh := Closed\<rparr>) =
           Return (False, i\<lparr>stopped := True, stopCh := Closed\<rparr>) \<and>
         (\<forall>cs' rs' i'. monitorRun I cs' (i\<lparr>stopped := True, stopCh := Closed\<rparr>) = Return (rs', i') \<longrightarrow>
            stopped i' \<and> StopInformer i' = Return (False, i'))"
proof -
  have "chanAgrees i"
    by (rule monitorRun_chanAgrees [OF assms(1) chanAgrees_new])
  with assms(2) have "stopCh i = Open"
    by (cases "stopCh i") (simp_all add: chanAgrees_def)
  with assms(2) have first: "StopInformer i = Return (True, i\<lparr>stopped := True, stopCh := Closed\<rparr>)"
    by (simp add: StopInformer_def)
  have later: "stopped i' \<and> StopInformer i' = Return (False, i')"
    if "monitorRun I cs' (i\<lparr>stopped := True, stopCh := Closed\<rparr>) = Return (rs', i')"
    for cs' rs' i'
  proof -
    have "stopped i'"
      using that monitorRun_stopped [of I cs' "i\<lparr>stopped := True, stopCh := Closed\<rparr>" rs' i']
      by simp
    then show ?thesis by (simp add: StopInformer_def)
  qed
  have second: "StopInformer (i\<lparr>stopped := True, stopCh := Closed\<rparr>) =
      Return (False, i\<lparr>stopped := True, stopCh := Closed\<rparr>)"
    by (simp add: StopInformer_def)
  show ?thesis
  proof (intro conjI allI impI)
    show "StopInformer i = Return (True, i\<lparr>stopped := True, stopCh := Closed\<rparr>)"
      by (rule first)
    show "StopInformer (i\<lparr>stopped := True, stopCh := Closed\<rparr>) =
        Return (False, i\<lparr>stopped := True, stopCh := Closed\<rparr>)"
      by (rule second)
    show "stopped i'"
      if "monitorRun I cs' (i\<lparr>stopped := True, stopCh := Closed\<rparr>) = Return (rs', i')"
      for cs' rs' i'
      using later [OF that] by (rule conjunct1)
    show "StopInformer i' = Return (False, i')"
      if "monitorRun I cs' (i\<lparr>stopped := True, stopCh := Closed\<rparr>) = Return (rs', i')"
      for cs' rs' i'
      using later [OF that] by (rule conjunct2)
  qed
qed


theorem StopInformer_idempotent_witness:
  "monitorRun exampleSharedInformer [CallAddEventHandler 1] exampleMonitor =
     Return ([AddResult (Inr \<lparr>handlerRegistration = 0, objectKey = exampleKey\<rparr>)],
             exampleMonitor\<lparr>informer := \<lparr>listeners = [0], nextHandle = 1, cached = (NilItem, False, None)\<rparr>,
                             numHandlers := 1\<rparr>) \<and>
   StopInformer (exampleMonitor\<lparr>informer := \<lparr>listeners = [0], nextHandle = 1, cached = (NilItem, False, None)\<rparr>,
                                numHandlers := 1\<rparr>) =
     Return (True, exampleMonitor\<lparr>informer := \<lparr>listeners = [0], nextHandle = 1, cached = (NilItem, False, None)\<rparr>,
                                   numHandlers := 1, stopped := True, stopCh := Closed\<rparr>) \<and>
   StopInformer (exampleMonitor\<lparr>informer := \<lparr>listeners = [0], nextHandle = 1, cached = (NilItem, False, None)\<rparr>,
                                numHandlers := 1, stopped := True, stopCh := Closed\<rparr>) =
     Return (False, exampleMonitor\<lparr>informer := \<lparr>listeners = [0], nextHandle = 1, cached = (NilItem, False, None)\<rparr>,
                                    numHandlers := 1, stopped := True, stopCh := Closed\<rparr>)"
proof -
  let ?m = "exampleMonitor\<lparr>informer := \<lparr>listeners = [0], nextHandle = 1, cached = (NilItem, False, None)\<rparr>,
                           numHandlers := 1\<rparr>"
  have run: "monitorRun exampleSharedInformer [CallAddEventHandler 1] exampleMonitor =
             Return ([AddResult (Inr \<lparr>handlerRegistration = 0, objectKey = exampleKey\<rparr>)], ?m)"
    by (simp add: monitorStep_def AddEventHandler_def exampleSharedInformer_def
        newSingleItemMonitor_def exampleNew_def)
  have ns: "\<not> stopped ?m"
    by (simp add: newSingleItemMonitor_def)
  note th = StopInformer_idempotent [OF run ns]
  show ?thesis
    using run th [THEN conjunct1] th [THEN conjunct2, THEN conjunct1]
    by (intro conjI)
qed

subsection \<open>AddEventHandler\<close>

text \<open>
  Claim C5. On a stopped monitor \<open>AddEventHandler\<close> returns an error and leaves the
  monitor, hence its counter, as it was. On a running monitor, when the informer
  accepts the handler, the counter is incremented by one (in the counter's 32-bit
  arithmetic; as a signed number whenever it was below the largest value) and the
  registration returned carries the informer's handle and the monitor's key.
\<close>

theorem AddEventHandler_spec:
  "(stopped i \<longrightarrow> AddEventHandler I h i = (Inl (AddToStoppedInformer h), i)) \<and>
   (\<not> stopped i \<and> InformerAddEventHandler I h (informer i) = (Inr reg, si') \<longrightarrow>
      AddEventHandler I h i =
        (Inr \<lparr>handlerRegistration = reg, objectKey = key i\<rparr>,
         i\<lparr>informer := si', numHandlers := numHandlers i + 1\<rparr>) \<and>
      GetKey \<lparr>handlerRegistration = reg, objectKey = key i\<rparr> = key i \<and>
      (sint (numHandlers i) < 2147483647 \<longrightarrow>
         sint (numHandlers i + 1) = sint (numHandlers i) + 1))"
  by (simp add: AddEventHandler_def GetKey_def sint_inc)

theorem AddEventHandler_spec_witness:
  "AddEventHandler exampleSharedInformer 7 (exampleMonitor\<lparr>stopped := True, stopCh := Closed\<rparr>) =
     (Inl (AddToStoppedInformer 7), exampleMonitor\<lparr>stopped := True, stopCh := Closed\<rparr>) \<and>
   AddEventHandler exampleSharedInformer 7 exampleMonitor =
     (Inr \<lparr>handlerRegistration = 0, objectKey = exampleKey\<rparr>,
      exampleMonitor\<lparr>informer := \<lparr>listeners = [0], nextHandle = 1, cached = (NilItem, False, None)\<rparr>,
                      numHandlers := 1\<rparr>) \<and>
   sint (numHandlers exampleMonitor + 1) = 1"
proof -
  have a: "stopped (exampleMonitor\<lparr>stopped := True, stopCh := Closed\<rparr>)"
    by simp
  have b: "\<not> stopped exampleMonitor \<and>
           InformerAddEventHandler exampleSharedInformer 7 (informer exampleMonitor) =
             (Inr 0, \<lparr>listeners = [0], nextHandle = 1, cached = (NilItem, False, None)\<rparr>)"
    by (simp add: newSingleItemMonitor_def exampleSharedInformer_def exampleNew_def)
  have c: "sint (numHandlers exampleMonitor) < 2147483647"
    by (simp add: newSingleItemMonitor_def)
  have k: "key exampleMonitor = exampleKey" "numHandlers exampleMonitor = 0"
    by (simp_all add: newSingleItemMonitor_def)
  from AddEventHandler_spec [of "exampleMonitor\<lparr>stopped := True, stopCh := Closed\<rparr>"
        exampleSharedInformer 7] a
    AddEventHandler_spec [of exampleMonitor exampleSharedInformer 7 0
        "\<lparr>listeners = [0], nextHandle = 1, cached = (NilItem, False, None)\<rparr>"] b c k
  show ?thesis by simp
qed

subsection \<open>RemoveEventHandler\<close>

lemma RemoveEventHandler_stopped:
  "stopped i \<Longrightarrow>
     RemoveEventHandler I (Some h) i = Return (Some (RemoveFromStoppedInformer (GetHandler h)), i)"
  by (simp add: RemoveEventHandler_def)

text \<open>
  Claim C6. With a nil registration \<open>RemoveEventHandler\<close> does not return an error: it
  panics, on a running and on a stopped monitor alike, since both paths call
  \<open>GetHandler\<close> on the nil interface value.
\<close>

theorem RemoveEventHandler_nil_panics:
  "RemoveEventHandler I None i = Panic"
  by (simp add: RemoveEventHandler_def)

subsection \<open>The handler counter over a run\<close>

lemma monitorStep_numHandlers:
  assumes "monitorStep I c i = Return (r, i')"
  shows "numHandlers i' =
           numHandlers i + (if addSucceeded r then 1 else 0) - (if removeSucceeded r then 1 else 0)"
proof (cases c)
  case CallStopInformer
  with assms show ?thesis
    by (auto simp: monitorStep_def split: outcome.splits prod.splits dest: StopInformer_cases)
next
  case (CallAddEventHandler h)
  with assms show ?thesis
    by (auto simp: monitorStep_def AddEventHandler_def split: if_splits prod.splits sum.splits)
next
  case (CallRemoveEventHandler hr)
  with assms show ?thesis
    by (auto simp: monitorStep_def RemoveEventHandler_def
             split: if_splits prod.splits option.splits)
qed

lemma monitorRun_numHandlers:
  "monitorRun I cs i = Return (rs, i') \<Longrightarrow>
     numHandlers i' = numHandlers i + of_nat (successfulAdds rs) - of_nat (successfulRemoves rs)"
proof (induction cs arbitrary: i rs)
  case Nil
  then show ?case by (simp add: successfulAdds_def successfulRemoves_def)
next
  case (Cons c cs)
  from Cons.prems obtain r i1 rs1 where
    step: "monitorStep I c i = Return (r, i1)" and
    rest: "monitorRun I cs i1 = Return (rs1, i')" and
    rs: "rs = r # rs1"
    by (auto split: outcome.splits prod.splits)
  from Cons.IH [OF rest] monitorStep_numHandlers [OF step] rs
  show ?case
    by (simp add: successfulAdds_def successfulRemoves_def)
qed

text \<open>
  Claim C7, as the code has it. Over every run of calls on a new monitor the counter
  is the number of successful adds minus the number of successful removes, in 32-bit
  arithmetic. \<open>RemoveEventHandler\<close> has no floor: it decrements whenever the monitor is
  running and the informer reports no error. So the counter is non-negative when the
  informer has accepted no more removals than additions (fewer than \<open>2^31\<close> of them),
  and negative when it has accepted more.
\<close>

theorem numHandlers_counts:
  assumes "monitorRun I cs (newSingleItemMonitor k si) = Return (rs, i)"
  shows "numHandlers i = of_nat (successfulAdds rs) - of_nat (successfulRemoves rs) \<and>
         (successfulRemoves rs \<le> successfulAdds rs \<and> successfulAdds rs < 2147483648 \<longrightarrow>
            sint (numHandlers i) = int (successfulAdds rs) - int (successfulRemoves rs) \<and>
            0 \<le> sint (numHandlers i)) \<and>
         (successfulAdds rs < successfulRemoves rs \<and> successfulRemoves rs < 2147483648 \<longrightarrow>
            sint (numHandlers i) < 0)"
proof -
  let ?a = "successfulAdds rs" and ?r = "successfulRemoves rs"
  have eq: "numHandlers i = of_nat ?a - of_nat ?r"
    using monitorRun_numHandlers [OF assms] by (simp add: newSingleItemMonitor_def)
  have w: "numHandlers i = word_of_int (int ?a - int ?r)"
    by (simp add: eq)
  have pos: "sint (numHandlers i) = int ?a - int ?r \<and> 0 \<le> sint (numHandlers i)"
    if "?r \<le> ?a \<and> ?a < 2147483648"
  proof -
    have "sint (word_of_int (int ?a - int ?r) :: 32 word) = int ?a - int ?r"
      using that by (intro sint_of_int32) linarith+
    with that show ?thesis by (simp add: w)
  qed
  have neg: "sint (numHandlers i) < 0"
    if "?a < ?r \<and> ?r < 2147483648"
  proof -
    have "sint (word_of_int (int ?a - int ?r) :: 32 word) = int ?a - int ?r"
      using that by (intro sint_of_int32) linarith+
    with that show ?thesis by (simp add: w)
  qed
  show ?thesis
  proof (intro conjI impI)
    show "numHandlers i = of_nat ?a - of_nat ?r" by (rule eq)
    show "sint (numHandlers i) = int ?a - int ?r" if "?r \<le> ?a \<and> ?a < 2147483648"
      using pos [OF that] by (rule conjunct1)
    show "0 \<le> sint (numHandlers i)" if "?r \<le> ?a \<and> ?a < 2147483648"
      using pos [OF that] by (rule conjunct2)
    show "sint (numHandlers i) < 0" if "?a < ?r \<and> ?r < 2147483648"
      by (rule neg [OF that])
  qed
qed

lemma example_double_remove:
  "monitorRun exampleSharedInformer
     [CallAddEventHandler 1,
      CallRemoveEventHandler (Some \<lparr>handlerRegistration = 0, objectKey = exampleKey\<rparr>),
      CallRemoveEventHandler (Some \<lparr>handlerRegistration = 0, objectKey = exampleKey\<rparr>)]
     exampleMonitor =
   Return ([AddResult (Inr \<lparr>handlerRegistration = 0, objectKey = exampleKey\<rparr>),
            RemoveResult None, RemoveResult None],
           exampleMonitor\<lparr>informer := \<lparr>listeners = [], nextHandle = 1, cached = (NilItem, False, None)\<rparr>,
                           numHandlers := - 1\<rparr>)"
  by (simp add: monitorStep_def AddEventHandler_def RemoveEventHandler_def GetHandler_def
      exampleSharedInformer_def newSingleItemMonitor_def exampleNew_def)

theorem numHandlers_counts_witness:
  "numHandlers (exampleMonitor\<lparr>informer := \<lparr>listeners = [], nextHandle = 1, cached = (NilItem, False, None)\<rparr>,
                               numHandlers := - 1\<rparr>) = of_nat 1 - of_nat 2 \<and>
   sint (numHandlers (exampleMonitor\<lparr>informer := \<lparr>listeners = [], nextHandle = 1, cached = (NilItem, False, None)\<rparr>,
                               numHandlers := - 1\<rparr>)) < 0"
proof -
  have a: "successfulAdds [AddResult (Inr \<lparr>handlerRegistration = 0, objectKey = exampleKey\<rparr>),
            RemoveResult None, RemoveResult None] = 1"
    by (simp add: successfulAdds_def)
  have r: "successfulRemoves [AddResult (Inr \<lparr>handlerRegistration = 0, objectKey = exampleKey\<rparr>),
            RemoveResult None, RemoveResult None] = 2"
    by (simp add: successfulRemoves_def)
  note th = numHandlers_counts [OF example_double_remove, unfolded a r]
  from th [THEN conjunct1] th [THEN conjunct2, THEN conjunct2]
  show ?thesis by simp
qed

text \<open>
  The claim as stated fails: one handler is added, its registration is removed twice,
  the informer reports no error for the second removal, and the counter is \<open>-1\<close>.
\<close>

theorem numHandlers_negative_counterexample:
  "monitorRun exampleSharedInformer
     [CallAddEventHandler 1,
      CallRemoveEventHandler (Some \<lparr>handlerRegistration = 0, objectKey = exampleKey\<rparr>),
      CallRemoveEventHandler (Some \<lparr>handlerRegistration = 0, objectKey = exampleKey\<rparr>)]
     exampleMonitor =
   Return ([AddResult (Inr \<lparr>handlerRegistration = 0, objectKey = exampleKey\<rparr>),
            RemoveResult None, RemoveResult None],
           exampleMonitor\<lparr>informer := \<lparr>listeners = [], nextHandle = 1, cached = (NilItem, False, None)\<rparr>,
                           numHandlers := - 1\<rparr>) \<and>
   sint (numHandlers (exampleMonitor\<lparr>informer := \<lparr>listeners = [], nextHandle = 1, cached = (NilItem, False, None)\<rparr>,
                               numHandlers := - 1\<rparr>)) = - 1"
  by (simp add: monitorStep_def AddEventHandler_def RemoveEventHandler_def GetHandler_def
      exampleSharedInformer_def newSingleItemMonitor_def exampleNew_def)

section \<open>Properties of secretMonitor\<close>

subsection \<open>RemoveSecretEventHandler\<close>

text \<open>
  Claim C8. A nil registration gets the error \<open>secret handler is nil\<close>; a registration
  whose key has no entry in the map gets no error; in both cases the state is returned
  as it was.
\<close>

theorem RemoveSecretEventHandler_nil_or_absent:
  "RemoveSecretEventHandler I None s = Return (Some SecretHandlerIsNil, s) \<and>
   (monitors s (GetKey h) = None \<longrightarrow>
      RemoveSecretEventHandler I (Some h) s = Return (None, s))"
  by (simp add: RemoveSecretEventHandler_def)

theorem RemoveSecretEventHandler_nil_or_absent_witness:
  "RemoveSecretEventHandler exampleSharedInformer None NewSecretMonitor =
     Return (Some SecretHandlerIsNil, NewSecretMonitor) \<and>
   RemoveSecretEventHandler exampleSharedInformer
     (Some \<lparr>handlerRegistration = 0, objectKey = exampleKey\<rparr>) NewSecretMonitor =
     Return (None, NewSecretMonitor)"
proof -
  have "monitors (NewSecretMonitor :: exampleInformer secretMonitor)
          (GetKey \<lparr>handlerRegistration = 0, objectKey = exampleKey\<rparr>) = None"
    by (simp add: NewSecretMonitor_def)
  with RemoveSecretEventHandler_nil_or_absent
         [of exampleSharedInformer NewSecretMonitor
             "\<lparr>handlerRegistration = 0, objectKey = exampleKey\<rparr>"]
  show ?thesis by simp
qed

text \<open>
  Claim C10. When the monitor's \<open>RemoveEventHandler\<close> returns an error,
  \<open>RemoveSecretEventHandler\<close> returns that error; the map is as it was, and the monitor
  keeps its key, its stopped flag, its stop channel and its counter: at most the
  informer's own state inside it has changed. Every other monitor is untouched.
\<close>

theorem RemoveSecretEventHandler_failure_atomic:
  assumes "monitors s (GetKey h) = Some a"
    and "a < length (heap s)"
    and "RemoveEventHandler I (Some h) (heap s ! a) = Return (Some err, m')"
  shows "RemoveSecretEventHandler I (Some h) s =
           Return (Some err, s\<lparr>heap := (heap s)[a := (heap s ! a)\<lparr>informer := informer m'\<rparr>]\<rparr>) \<and>
         monitors (s\<lparr>heap := (heap s)[a := (heap s ! a)\<lparr>informer := informer m'\<rparr>]\<rparr>) = monitors s \<and>
         stopped ((heap s)[a := (heap s ! a)\<lparr>informer := informer m'\<rparr>] ! a) = stopped (heap s ! a) \<and>
         numHandlers ((heap s)[a := (heap s ! a)\<lparr>informer := informer m'\<rparr>] ! a) =
           numHandlers (heap s ! a) \<and>
         (stopped (heap s ! a) \<longrightarrow>
            RemoveSecretEventHandler I (Some h) s = Return (Some err, s))"
proof -
  have m': "m' = (heap s ! a)\<lparr>informer := informer m'\<rparr>"
    using assms(3)
    by (auto simp: RemoveEventHandler_def split: if_splits prod.splits option.splits)
  have ret: "RemoveSecretEventHandler I (Some h) s =
      Return (Some err, s\<lparr>heap := (heap s)[a := m']\<rparr>)"
    using assms(1,3) by (simp add: RemoveSecretEventHandler_def)
  have same: "m' = heap s ! a" if "stopped (heap s ! a)"
    using assms(3) that by (simp add: RemoveEventHandler_def)
  show ?thesis
  proof (intro conjI impI)
    show "RemoveSecretEventHandler I (Some h) s =
        Return (Some err, s\<lparr>heap := (heap s)[a := (heap s ! a)\<lparr>informer := informer m'\<rparr>]\<rparr>)"
      using ret m' by simp
    show "monitors (s\<lparr>heap := (heap s)[a := (heap s ! a)\<lparr>informer := informer m'\<rparr>]\<rparr>) = monitors s"
      by simp
    show "stopped ((heap s)[a := (heap s ! a)\<lparr>informer := informer m'\<rparr>] ! a) = stopped (heap s ! a)"
      using assms(2) by simp
    show "numHandlers ((heap s)[a := (heap s ! a)\<lparr>informer := informer m'\<rparr>] ! a) =
        numHandlers (heap s ! a)"
      using assms(2) by simp
    show "RemoveSecretEventHandler I (Some h) s = Return (Some err, s)"
      if "stopped (heap s ! a)"
      using ret same [OF that] by simp
  qed
qed

text \<open>
  Claim C3. When the monitor's \<open>RemoveEventHandler\<close> succeeds and the counter it leaves
  is zero (or less), \<open>RemoveSecretEventHandler\<close> stops the monitor, deletes the map
  entry and returns no error; when the counter is still positive the entry stays and
  the monitor is not stopped. The mapped address is allocated and the monitor's stop
  channel is open, as they are in every state the calls build (\<open>reachable_mapped\<close>
  below).
\<close>

theorem RemoveSecretEventHandler_success:
  assumes "monitors s (GetKey h) = Some a"
    and "a < length (heap s)"
    and "stopCh (heap s ! a) = Open"
    and "RemoveEventHandler I (Some h) (heap s ! a) = Return (None, m')"
  shows "(sint (numHandlers m') \<le> 0 \<longrightarrow>
            RemoveSecretEventHandler I (Some h) s =
              Return (None, s\<lparr>heap := (heap s)[a := m'\<lparr>stopped := True, stopCh := Closed\<rparr>],
                              monitors := (monitors s)(GetKey h := None)\<rparr>) \<and>
            StopInformer m' = Return (True, m'\<lparr>stopped := True, stopCh := Closed\<rparr>) \<and>
            stopped ((heap s)[a := m'\<lparr>stopped := True, stopCh := Closed\<rparr>] ! a)) \<and>
         (0 < sint (numHandlers m') \<longrightarrow>
            RemoveSecretEventHandler I (Some h) s =
              Return (None, s\<lparr>heap := (heap s)[a := m']\<rparr>) \<and>
            monitors (s\<lparr>heap := (heap s)[a := m']\<rparr>) (GetKey h) = Some a \<and>
            \<not> stopped ((heap s)[a := m'] ! a))"
proof -
  have ns: "\<not> stopped (heap s ! a)"
    using assms(4) by (auto simp: RemoveEventHandler_def split: if_splits)
  have f: "stopped m' = stopped (heap s ! a)" "stopCh m' = stopCh (heap s ! a)"
    using RemoveEventHandler_fields [OF assms(4)] by simp_all
  have stop: "StopInformer m' = Return (True, m'\<lparr>stopped := True, stopCh := Closed\<rparr>)"
    using ns f assms(3) by (simp add: StopInformer_def)
  show ?thesis
  proof (intro conjI impI)
    show "RemoveSecretEventHandler I (Some h) s =
        Return (None, s\<lparr>heap := (heap s)[a := m'\<lparr>stopped := True, stopCh := Closed\<rparr>],
                        monitors := (monitors s)(GetKey h := None)\<rparr>)"
      if "sint (numHandlers m') \<le> 0"
      using assms(1,4) that stop by (simp add: RemoveSecretEventHandler_def)
    show "StopInformer m' = Return (True, m'\<lparr>stopped := True, stopCh := Closed\<rparr>)"
      by (rule stop)
    show "stopped ((heap s)[a := m'\<lparr>stopped := True, stopCh := Closed\<rparr>] ! a)"
      using assms(2) by simp
    show "RemoveSecretEventHandler I (Some h) s = Return (None, s\<lparr>heap := (heap s)[a := m']\<rparr>)"
      if "0 < sint (numHandlers m')"
      using assms(1,4) that by (simp add: RemoveSecretEventHandler_def)
    show "monitors (s\<lparr>heap := (heap s)[a := m']\<rparr>) (GetKey h) = Some a"
      using assms(1) by simp
    show "\<not> stopped ((heap s)[a := m'] ! a)"
      using assms(2) ns f by simp
  qed
qed

lemma exampleState1_reached:
  "AddSecretEventHandler exampleSharedInformer ''ns'' ''secret'' 1 NewSecretMonitor =
     (Inr (exampleRegistration 0), exampleState1)"
  by (simp add: AddSecretEventHandler_def addSecretEventHandler_def AddEventHandler_def
      NewSecretMonitor_def exampleState1_def exampleRegistration_def exampleKey_def
      exampleSharedInformer_def newSingleItemMonitor_def exampleNew_def Let_def)

lemma exampleState2_reached:
  "AddSecretEventHandler exampleSharedInformer ''ns'' ''secret'' 2 exampleState1 =
     (Inr (exampleRegistration 1), exampleState2)"
  by (simp add: AddSecretEventHandler_def addSecretEventHandler_def AddEventHandler_def
      exampleState1_def exampleState2_def exampleRegistration_def exampleKey_def
      exampleSharedInformer_def newSingleItemMonitor_def exampleNew_def Let_def
      NewObjectKey_def)

theorem RemoveSecretEventHandler_failure_atomic_witness:
  "RemoveSecretEventHandler exampleSharedInformer (Some (exampleRegistration 5)) exampleState1 =
     Return (Some (InformerError 1), exampleState1)"
proof -
  have a: "monitors exampleState1 (GetKey (exampleRegistration 5)) = Some 0"
    by (simp add: exampleState1_def GetKey_def exampleRegistration_def)
  have b: "0 < length (heap exampleState1)"
    by (simp add: exampleState1_def)
  have c: "RemoveEventHandler exampleSharedInformer (Some (exampleRegistration 5))
             (heap exampleState1 ! 0) = Return (Some (InformerError 1), heap exampleState1 ! 0)"
    by (simp add: RemoveEventHandler_def exampleState1_def exampleSharedInformer_def
        GetHandler_def exampleRegistration_def newSingleItemMonitor_def)
  have d: "exampleState1\<lparr>heap := (heap exampleState1)
             [0 := (heap exampleState1 ! 0)\<lparr>informer := informer (heap exampleState1 ! 0)\<rparr>]\<rparr> =
           exampleState1"
    by (simp add: exampleState1_def)
  from RemoveSecretEventHandler_failure_atomic [OF a b c, THEN conjunct1] d
  show ?thesis by simp
qed

theorem RemoveSecretEventHandler_success_witness:
  "RemoveSecretEventHandler exampleSharedInformer (Some (exampleRegistration 0)) exampleState1 =
     Return (None,
       \<lparr>monitors = Map.empty,
        heap = [exampleMonitor\<lparr>informer := \<lparr>listeners = [], nextHandle = 1,
                                             cached = (NilItem, False, None)\<rparr>,
                               numHandlers := 0, stopped := True, stopCh := Closed\<rparr>]\<rparr>) \<and>
   RemoveSecretEventHandler exampleSharedInformer (Some (exampleRegistration 0)) exampleState2 =
     Return (None,
       \<lparr>monitors = [exampleKey \<mapsto> 0],
        heap = [exampleMonitor\<lparr>informer := \<lparr>listeners = [1], nextHandle = 2,
                                             cached = (NilItem, False, None)\<rparr>,
                               numHandlers := 1\<rparr>]\<rparr>)"
proof -
  let ?m1 = "exampleMonitor\<lparr>informer := \<lparr>listeners = [], nextHandle = 1,
                                             cached = (NilItem, False, None)\<rparr>,
                               numHandlers := 0\<rparr>"
  let ?m2 = "exampleMonitor\<lparr>informer := \<lparr>listeners = [1], nextHandle = 2,
                                             cached = (NilItem, False, None)\<rparr>,
                               numHandlers := 1\<rparr>"
  have a1: "monitors exampleState1 (GetKey (exampleRegistration 0)) = Some 0"
    and a2: "monitors exampleState2 (GetKey (exampleRegistration 0)) = Some 0"
    by (simp_all add: exampleState1_def exampleState2_def GetKey_def exampleRegistration_def)
  have b1: "0 < length (heap exampleState1)" and b2: "0 < length (heap exampleState2)"
    by (simp_all add: exampleState1_def exampleState2_def)
  have c1: "stopCh (heap exampleState1 ! 0) = Open"
    and c2: "stopCh (heap exampleState2 ! 0) = Open"
    by (simp_all add: exampleState1_def exampleState2_def newSingleItemMonitor_def)
  have d1: "RemoveEventHandler exampleSharedInformer (Some (exampleRegistration 0))
              (heap exampleState1 ! 0) = Return (None, ?m1)"
    by (simp add: RemoveEventHandler_def exampleState1_def exampleSharedInformer_def
        GetHandler_def exampleRegistration_def newSingleItemMonitor_def)
  have d2: "RemoveEventHandler exampleSharedInformer (Some (exampleRegistration 0))
              (heap exampleState2 ! 0) = Return (None, ?m2)"
    by (simp add: RemoveEventHandler_def exampleState2_def exampleSharedInformer_def
        GetHandler_def exampleRegistration_def newSingleItemMonitor_def)
  have e1: "sint (numHandlers ?m1) \<le> 0" and e2: "0 < sint (numHandlers ?m2)"
    by simp_all
  from RemoveSecretEventHandler_success [OF a1 b1 c1 d1, THEN conjunct1, rule_format, OF e1,
         THEN conjunct1]
  have r1: "RemoveSecretEventHandler exampleSharedInformer (Some (exampleRegistration 0))
              exampleState1 =
            Return (None, \<lparr>monitors = Map.empty, heap = [?m1\<lparr>stopped := True, stopCh := Closed\<rparr>]\<rparr>)"
    by (simp add: exampleState1_def GetKey_def exampleRegistration_def)
  from RemoveSecretEventHandler_success [OF a2 b2 c2 d2, THEN conjunct2, rule_format, OF e2,
         THEN conjunct1]
  have r2: "RemoveSecretEventHandler exampleSharedInformer (Some (exampleRegistration 0))
              exampleState2 =
            Return (None, \<lparr>monitors = [exampleKey \<mapsto> 0], heap = [?m2]\<rparr>)"
    by (simp add: exampleState2_def)
  from r1 r2 show ?thesis by simp
qed

subsection \<open>GetSecret\<close>

text \<open>
  Claim C9. The store of the monitor consulted answers as the store of a client-go
  informer does: it reports no error of its own and holds no nil \<open>*v1.Secret\<close>. Then
  \<open>GetSecret\<close> returns an error in exactly four cases: \<open>secret handler is nil\<close> for a nil
  registration, \<open>secret monitor doesn't exist\<close> when the registration's key has no entry
  in the map, \<open>doesn't exist in cache\<close> when the store reports the object absent, and
  \<open>unexpected type\<close> when the object present is not a secret. In the one case left it
  returns the cached secret and no error. It never returns a nil secret with no error.
\<close>

theorem GetSecret_cases:
  assumes "\<forall>h a. hr = Some h \<and> monitors s (GetKey h) = Some a \<longrightarrow>
             snd (snd (GetItem I (heap s ! a))) = None \<and>
             fst (GetItem I (heap s ! a)) \<noteq> SecretItem None"
  shows "(hr = None \<longrightarrow> GetSecret I hr s = Inl SecretHandlerIsNil) \<and>
         (\<forall>h. hr = Some h \<and> monitors s (GetKey h) = None \<longrightarrow>
              GetSecret I hr s = Inl (MonitorDoesNotExist (GetKey h))) \<and>
         (\<forall>h a. hr = Some h \<and> monitors s (GetKey h) = Some a \<and>
                \<not> fst (snd (GetItem I (heap s ! a))) \<longrightarrow>
              GetSecret I hr s = Inl (SecretNotInCache (Name (GetKey h)))) \<and>
         (\<forall>h a. hr = Some h \<and> monitors s (GetKey h) = Some a \<and>
                fst (snd (GetItem I (heap s ! a))) \<and>
                (\<forall>p. fst (GetItem I (heap s ! a)) \<noteq> SecretItem p) \<longrightarrow>
              GetSecret I hr s = Inl UnexpectedType) \<and>
         (\<forall>h a secret. hr = Some h \<and> monitors s (GetKey h) = Some a \<and>
                fst (snd (GetItem I (heap s ! a))) \<and>
                fst (GetItem I (heap s ! a)) = SecretItem (Some secret) \<longrightarrow>
              GetSecret I hr s = Inr (Some secret)) \<and>
         GetSecret I hr s \<noteq> Inr None \<and>
         isl (GetSecret I hr s) =
           (hr = None \<or>
            (\<exists>h. hr = Some h \<and>
               (monitors s (GetKey h) = None \<or>
                (\<exists>a. monitors s (GetKey h) = Some a \<and>
                   (\<not> fst (snd (GetItem I (heap s ! a))) \<or>
                    (\<forall>p. fst (GetItem I (heap s ! a)) \<noteq> SecretItem p))))))"
proof (cases hr)
  case None
  then show ?thesis by (simp add: GetSecret_def)
next
  case (Some h)
  note hr = this
  show ?thesis
  proof (cases "monitors s (GetKey h)")
    case None
    with hr show ?thesis by (simp add: GetSecret_def)
  next
    case (Some a)
    obtain uncast ex err where g: "GetItem I (heap s ! a) = (uncast, ex, err)"
      by (cases "GetItem I (heap s ! a)")
    from assms hr Some g have e: "err = None" and n: "uncast \<noteq> SecretItem None"
      by simp_all
    show ?thesis
    proof (cases ex)
      case False
      with hr Some g e show ?thesis by (simp add: GetSecret_def)
    next
      case True
      show ?thesis
      proof (cases uncast)
        case NilItem
        with hr Some g e True show ?thesis by (simp add: GetSecret_def)
      next
        case (OtherItem x)
        with hr Some g e True show ?thesis by (simp add: GetSecret_def)
      next
        case (SecretItem p)
        with n obtain secret where "p = Some secret" by (cases p) simp_all
        with SecretItem hr Some g e True show ?thesis by (simp add: GetSecret_def)
      qed
    qed
  qed
qed


theorem GetSecret_cases_witness:
  "GetSecret exampleSharedInformer (Some (exampleRegistration 0)) NewSecretMonitor =
     Inl (MonitorDoesNotExist exampleKey) \<and>
   GetSecret exampleSharedInformer (Some (exampleRegistration 0)) exampleState1 =
     Inl (SecretNotInCache ''secret'') \<and>
   GetSecret exampleSharedInformer (Some (exampleRegistration 0)) exampleState3 =
     Inr (Some ''payload'')"
proof -
  let ?r = "exampleRegistration 0"
  have k: "GetKey ?r = exampleKey" "Name exampleKey = ''secret''"
    by (simp_all add: GetKey_def exampleRegistration_def exampleKey_def NewObjectKey_def)
  have g1: "GetItem exampleSharedInformer (heap exampleState1 ! 0) = (NilItem, False, None)"
    by (simp add: exampleState1_def GetItem_def exampleSharedInformer_def)
  have g3: "GetItem exampleSharedInformer (heap exampleState3 ! 0) =
      (SecretItem (Some ''payload''), True, None)"
    by (simp add: exampleState3_def GetItem_def exampleSharedInformer_def)
  have m0: "monitors (NewSecretMonitor :: exampleInformer secretMonitor) k' = None" for k'
    by (simp add: NewSecretMonitor_def)
  have m1: "monitors exampleState1 k' = Some a \<Longrightarrow> a = 0" for k' a
    by (simp add: exampleState1_def split: if_splits)
  have m3: "monitors exampleState3 k' = Some a \<Longrightarrow> a = 0" for k' a
    by (simp add: exampleState3_def split: if_splits)
  have p1: "monitors exampleState1 (GetKey ?r) = Some 0"
    and p3: "monitors exampleState3 (GetKey ?r) = Some 0"
    by (simp_all add: k exampleState1_def exampleState3_def)
  have h0: "\<forall>h a. Some ?r = Some h \<and>
        monitors (NewSecretMonitor :: exampleInformer secretMonitor) (GetKey h) = Some a \<longrightarrow>
        snd (snd (GetItem exampleSharedInformer (heap NewSecretMonitor ! a))) = None \<and>
        fst (GetItem exampleSharedInformer (heap NewSecretMonitor ! a)) \<noteq> SecretItem None"
    by (simp add: m0)
  have h1: "\<forall>h a. Some ?r = Some h \<and> monitors exampleState1 (GetKey h) = Some a \<longrightarrow>
        snd (snd (GetItem exampleSharedInformer (heap exampleState1 ! a))) = None \<and>
        fst (GetItem exampleSharedInformer (heap exampleState1 ! a)) \<noteq> SecretItem None"
    using g1 by (auto dest!: m1)
  have h3: "\<forall>h a. Some ?r = Some h \<and> monitors exampleState3 (GetKey h) = Some a \<longrightarrow>
        snd (snd (GetItem exampleSharedInformer (heap exampleState3 ! a))) = None \<and>
        fst (GetItem exampleSharedInformer (heap exampleState3 ! a)) \<noteq> SecretItem None"
    using g3 by (auto dest!: m3)
  note t0 = GetSecret_cases [OF h0, THEN conjunct2, THEN conjunct1, THEN spec, of ?r, THEN mp]
  note t1 = GetSecret_cases [OF h1, THEN conjunct2, THEN conjunct2, THEN conjunct1,
      THEN spec, of ?r, THEN spec, of 0, THEN mp]
  note t3 = GetSecret_cases [OF h3, THEN conjunct2, THEN conjunct2, THEN conjunct2,
      THEN conjunct2, THEN conjunct1, THEN spec, of ?r, THEN spec, of 0, THEN spec,
      of "''payload''", THEN mp]
  have r0: "GetSecret exampleSharedInformer (Some ?r) NewSecretMonitor =
      Inl (MonitorDoesNotExist exampleKey)"
    using t0 by (simp add: m0 k)
  have r1: "GetSecret exampleSharedInformer (Some ?r) exampleState1 =
      Inl (SecretNotInCache ''secret'')"
    using t1 p1 g1 by (simp add: k)
  have r3: "GetSecret exampleSharedInformer (Some ?r) exampleState3 = Inr (Some ''payload'')"
    using t3 p3 g3 by simp
  from r0 r1 r3 show ?thesis by (intro conjI)
qed

text \<open>
  Outside that hypothesis the code has two more answers. When the store reports the
  object present together with an error, \<open>GetSecret\<close> returns the store's error. When
  the store holds a nil \<open>*v1.Secret\<close>, the type assertion succeeds and \<open>GetSecret\<close>
  returns the nil secret with no error.
\<close>

lemma GetSecret_store_error:
  "monitors s (GetKey h) = Some a \<Longrightarrow> GetItem I (heap s ! a) = (uncast, True, Some e) \<Longrightarrow>
     GetSecret I (Some h) s = Inl e"
  by (simp add: GetSecret_def)

lemma GetSecret_nil_secret:
  "monitors s (GetKey h) = Some a \<Longrightarrow> GetItem I (heap s ! a) = (SecretItem None, True, None) \<Longrightarrow>
     GetSecret I (Some h) s = Inr None"
  by (simp add: GetSecret_def)

subsection \<open>What one call does to the state\<close>

lemma addSecretEventHandler_existing:
  assumes "monitors s (NewObjectKey namespace secretName) = Some a"
    and "AddEventHandler I h (heap s ! a) = (r, m')"
  shows "addSecretEventHandler I namespace secretName h f s = (r, s\<lparr>heap := (heap s)[a := m']\<rparr>)"
  using assms by (simp add: addSecretEventHandler_def Let_def)

lemma addSecretEventHandler_new:
  assumes "monitors s (NewObjectKey namespace secretName) = None"
    and "AddEventHandler I h
           (newSingleItemMonitor (NewObjectKey namespace secretName)
              (case f of None \<Rightarrow> NewSharedInformer I namespace secretName | Some si \<Rightarrow> si)) =
         (r, m')"
  shows "addSecretEventHandler I namespace secretName h f s =
           (r, s\<lparr>heap := heap s @ [m'],
                 monitors := (monitors s)(NewObjectKey namespace secretName \<mapsto> length (heap s))\<rparr>)"
  using assms by (simp add: addSecretEventHandler_def Let_def)

lemma AddEventHandler_numHandlers:
  "AddEventHandler I h i = (r, i') \<Longrightarrow>
     numHandlers i' = numHandlers i + (if isl r then 0 else 1)"
  by (auto simp: AddEventHandler_def split: if_splits prod.splits sum.splits)

lemma AddEventHandler_GetKey:
  "AddEventHandler I h i = (Inr reg, i') \<Longrightarrow> GetKey reg = key i"
  by (auto simp: AddEventHandler_def GetKey_def split: if_splits prod.splits sum.splits)

lemma RemoveEventHandler_numHandlers:
  "RemoveEventHandler I hr i = Return (e, i') \<Longrightarrow>
     numHandlers i' = numHandlers i - (if e = None then 1 else 0)"
  by (auto simp: RemoveEventHandler_def split: if_splits prod.splits option.splits)

lemma RemoveEventHandler_success_running:
  "RemoveEventHandler I hr i = Return (None, i') \<Longrightarrow> \<not> stopped i"
  by (auto simp: RemoveEventHandler_def split: if_splits prod.splits option.splits)

lemma RemoveEventHandler_Some_returns:
  "\<exists>e i'. RemoveEventHandler I (Some h) i = Return (e, i')"
  by (auto simp: RemoveEventHandler_def split: if_splits prod.splits option.splits)


lemma step_forKey_present:
  assumes "monitors s k = Some a"
    and "a < length (heap s)"
    and "key (heap s ! a) = k"
    and "forKey k c"
    and "step I c s = Return (r, s')"
    and "monitors s' k \<noteq> None"
  shows "monitors s' = monitors s \<and> length (heap s') = length (heap s) \<and>
         key (heap s' ! a) = k \<and>
         numHandlers (heap s' ! a) =
           numHandlers (heap s ! a) + (if addSecretSucceeded r then 1 else 0)
             - (if removeSecretSucceeded r then 1 else 0) \<and>
         (\<forall>reg. r = AddSecretResult (Inr reg) \<longrightarrow> GetKey reg = k)"
proof (cases c)
  case (CallAddSecretEventHandler namespace secretName h f)
  with assms(4) have k: "NewObjectKey namespace secretName = k" by simp
  obtain r0 m' where add: "AddEventHandler I h (heap s ! a) = (r0, m')"
    by (cases "AddEventHandler I h (heap s ! a)")
  from addSecretEventHandler_existing [of s namespace secretName a I h r0 m' f] assms(1) k add
  have "addSecretEventHandler I namespace secretName h f s = (r0, s\<lparr>heap := (heap s)[a := m']\<rparr>)"
    by simp
  with assms(5) CallAddSecretEventHandler
  have r: "r = AddSecretResult r0" and s': "s' = s\<lparr>heap := (heap s)[a := m']\<rparr>"
    by (simp_all add: step_def)
  from AddEventHandler_fields [OF add] assms(3) have km: "key m' = k" by simp
  from AddEventHandler_numHandlers [OF add]
  have n: "numHandlers m' = numHandlers (heap s ! a) + (if isl r0 then 0 else 1)" .
  have g: "GetKey reg = k" if "r0 = Inr reg" for reg
    using AddEventHandler_GetKey [of I h "heap s ! a" reg m'] add that assms(3) by simp
  show ?thesis
    using r s' km n g assms(2) by (cases r0) simp_all
next
  case (CallRemoveSecretEventHandler hr)
  show ?thesis
  proof (cases hr)
    case None
    with assms(5) CallRemoveSecretEventHandler
    have "r = RemoveSecretResult (Some SecretHandlerIsNil)" "s' = s"
      by (simp_all add: step_def RemoveSecretEventHandler_def)
    with assms(3) show ?thesis by simp
  next
    case (Some h)
    with assms(4) CallRemoveSecretEventHandler have k: "GetKey h = k" by simp
    obtain e m' where rem: "RemoveEventHandler I (Some h) (heap s ! a) = Return (e, m')"
      using RemoveEventHandler_Some_returns by blast
    from RemoveEventHandler_fields [OF rem] assms(3) have km: "key m' = k" by simp
    from RemoveEventHandler_numHandlers [OF rem]
    have n: "numHandlers m' = numHandlers (heap s ! a) - (if e = None then 1 else 0)" .
    show ?thesis
    proof (cases e)
      case (Some err)
      with assms(1,5) CallRemoveSecretEventHandler \<open>hr = Some h\<close> k rem
      have "r = RemoveSecretResult (Some err)" "s' = s\<lparr>heap := (heap s)[a := m']\<rparr>"
        by (simp_all add: step_def RemoveSecretEventHandler_def)
      with km n Some assms(2) show ?thesis by simp
    next
      case None
      have pos: "\<not> sint (numHandlers m') \<le> 0"
      proof
        assume le: "sint (numHandlers m') \<le> 0"
        with assms(1,5) CallRemoveSecretEventHandler \<open>hr = Some h\<close> k rem None
        have "monitors s' k = None"
          by (auto simp: step_def RemoveSecretEventHandler_def
                   split: outcome.splits prod.splits)
        with assms(6) show False by simp
      qed
      with assms(1,5) CallRemoveSecretEventHandler \<open>hr = Some h\<close> k rem None
      have "r = RemoveSecretResult None" "s' = s\<lparr>heap := (heap s)[a := m']\<rparr>"
        by (simp_all add: step_def RemoveSecretEventHandler_def)
      with km n None assms(2) show ?thesis by simp
    qed
  qed
next
  case (CallGetSecret hr)
  with assms(5) have "r = GetSecretResult (GetSecret I hr s)" "s' = s"
    by (auto simp: step_def)
  with assms(3) show ?thesis by simp
qed

lemma run_forKey_present:
  assumes "monitors s k = Some a"
    and "a < length (heap s)"
    and "key (heap s ! a) = k"
    and "\<forall>c \<in> set cs. forKey k c"
    and "keptThroughout I k cs s"
    and "run I cs s = Return (rs, s')"
  shows "monitors s' = monitors s \<and> length (heap s') = length (heap s) \<and>
         numHandlers (heap s' ! a) =
           numHandlers (heap s ! a) + of_nat (successfulSecretAdds rs)
             - of_nat (successfulSecretRemoves rs) \<and>
         (\<forall>reg. AddSecretResult (Inr reg) \<in> set rs \<longrightarrow> GetKey reg = k)"
  using assms
proof (induction cs arbitrary: s rs)
  case Nil
  then show ?case by (simp add: successfulSecretAdds_def successfulSecretRemoves_def)
next
  case (Cons c cs)
  from Cons.prems(6) obtain r s1 rs1 where
    st: "step I c s = Return (r, s1)" and
    rest: "run I cs s1 = Return (rs1, s')" and
    rs: "rs = r # rs1"
    by (auto split: outcome.splits prod.splits)
  from Cons.prems(5) st have kept1: "monitors s1 k \<noteq> None" and kept: "keptThroughout I k cs s1"
    by simp_all
  from Cons.prems(4) have fk: "forKey k c" and fks: "\<forall>c \<in> set cs. forKey k c"
    by simp_all
  note one = step_forKey_present [OF Cons.prems(1,2,3) fk st kept1]
  from one Cons.prems(1,2) have m1: "monitors s1 k = Some a" and l1: "a < length (heap s1)"
    and k1: "key (heap s1 ! a) = k"
    by simp_all
  note ih = Cons.IH [OF m1 l1 k1 fks kept rest]
  have cnt: "numHandlers (heap s' ! a) =
      numHandlers (heap s ! a) + of_nat (successfulSecretAdds rs)
        - of_nat (successfulSecretRemoves rs)"
    using one ih rs by (simp add: successfulSecretAdds_def successfulSecretRemoves_def)
  have keys: "GetKey reg = k" if "AddSecretResult (Inr reg) \<in> set rs" for reg
    using that rs one ih by auto
  from one ih cnt keys show ?case by simp
qed

subsection \<open>One monitor per identity\<close>

text \<open>
  Claim C2. The key has no entry. A run starts with an \<open>addSecretEventHandler\<close> call for
  the key and goes on with calls for the same key, adds and removes, none of which
  tears the key down. Then the first call allocates one monitor and maps the key to
  it; the later calls allocate none and leave the key mapped to that monitor; at the
  end its counter is the number of successful adds minus the number of successful
  removes (in 32-bit arithmetic, and as a signed number while fewer than \<open>2^31\<close> adds
  have succeeded); and every registration a successful add returned carries the key
  \<open>NewObjectKey namespace secretName\<close>.
\<close>

theorem one_monitor_per_identity:
  assumes "monitors s (NewObjectKey namespace secretName) = None"
    and "\<forall>c \<in> set cs. forKey (NewObjectKey namespace secretName) c"
    and "keptThroughout I (NewObjectKey namespace secretName) cs
           (snd (addSecretEventHandler I namespace secretName h f s))"
    and "run I (CallAddSecretEventHandler namespace secretName h f # cs) s = Return (rs, s')"
  shows "length (heap (snd (addSecretEventHandler I namespace secretName h f s))) =
           length (heap s) + 1 \<and>
         take (length (heap s)) (heap (snd (addSecretEventHandler I namespace secretName h f s))) =
           heap s \<and>
         monitors (snd (addSecretEventHandler I namespace secretName h f s)) =
           (monitors s)(NewObjectKey namespace secretName \<mapsto> length (heap s)) \<and>
         key (heap (snd (addSecretEventHandler I namespace secretName h f s)) ! length (heap s)) =
           NewObjectKey namespace secretName \<and>
         length (heap s') = length (heap s) + 1 \<and>
         monitors s' = (monitors s)(NewObjectKey namespace secretName \<mapsto> length (heap s)) \<and>
         numHandlers (heap s' ! length (heap s)) =
           of_nat (successfulSecretAdds rs) - of_nat (successfulSecretRemoves rs) \<and>
         (successfulSecretRemoves rs \<le> successfulSecretAdds rs \<and>
          successfulSecretAdds rs < 2147483648 \<longrightarrow>
            sint (numHandlers (heap s' ! length (heap s))) =
              int (successfulSecretAdds rs) - int (successfulSecretRemoves rs)) \<and>
         (\<forall>reg. AddSecretResult (Inr reg) \<in> set rs \<longrightarrow>
            GetKey reg = NewObjectKey namespace secretName)"
proof -
  let ?k = "NewObjectKey namespace secretName"
  let ?a = "length (heap s)"
  let ?m0 = "newSingleItemMonitor ?k
               (case f of None \<Rightarrow> NewSharedInformer I namespace secretName | Some si \<Rightarrow> si)"
  obtain r0 m' where add: "AddEventHandler I h ?m0 = (r0, m')"
    by (cases "AddEventHandler I h ?m0")
  let ?s1 = "s\<lparr>heap := heap s @ [m'], monitors := (monitors s)(?k \<mapsto> ?a)\<rparr>"
  note first = addSecretEventHandler_new [OF assms(1) add]
  then have s1: "snd (addSecretEventHandler I namespace secretName h f s) = ?s1"
    by simp
  from first
  have st: "step I (CallAddSecretEventHandler namespace secretName h f) s =
      Return (AddSecretResult r0, ?s1)"
    by (simp add: step_def)
  from assms(4) st obtain rs1 where
    rest: "run I cs ?s1 = Return (rs1, s')" and rs: "rs = AddSecretResult r0 # rs1"
    by (auto split: outcome.splits prod.splits)
  from assms(3) have kept: "keptThroughout I ?k cs ?s1"
    unfolding s1 .
  from AddEventHandler_fields [OF add] have km: "key m' = ?k"
    by (simp add: newSingleItemMonitor_def)
  from AddEventHandler_numHandlers [OF add]
  have n0: "numHandlers m' = (if isl r0 then 0 else 1)"
    by (simp add: newSingleItemMonitor_def)
  have g0: "GetKey reg = ?k" if "r0 = Inr reg" for reg
    using AddEventHandler_GetKey [of I h ?m0 reg m'] add that
    by (simp add: newSingleItemMonitor_def)
  have p1: "monitors ?s1 ?k = Some ?a" and p2: "?a < length (heap ?s1)"
    and p3: "key (heap ?s1 ! ?a) = ?k"
    using km by simp_all
  note tail = run_forKey_present [OF p1 p2 p3 assms(2) kept rest]
  have len: "length (heap s') = length (heap s) + 1"
    using tail by simp
  have mp: "monitors s' = (monitors s)(?k \<mapsto> ?a)"
    using tail by simp
  have cnt: "numHandlers (heap s' ! ?a) =
      of_nat (successfulSecretAdds rs) - of_nat (successfulSecretRemoves rs)"
    using tail n0 rs
    by (cases r0) (simp_all add: successfulSecretAdds_def successfulSecretRemoves_def)
  have keys: "GetKey reg = ?k" if "AddSecretResult (Inr reg) \<in> set rs" for reg
    using that rs g0 tail by auto
  have sg: "sint (numHandlers (heap s' ! ?a)) =
      int (successfulSecretAdds rs) - int (successfulSecretRemoves rs)"
    if "successfulSecretRemoves rs \<le> successfulSecretAdds rs \<and>
        successfulSecretAdds rs < 2147483648"
  proof -
    have "sint (word_of_int (int (successfulSecretAdds rs) - int (successfulSecretRemoves rs))
            :: 32 word) =
          int (successfulSecretAdds rs) - int (successfulSecretRemoves rs)"
      using that by (intro sint_of_int32) linarith+
    then show ?thesis by (simp add: cnt)
  qed
  show ?thesis
    unfolding s1
  proof (intro conjI impI allI)
    show "length (heap ?s1) = length (heap s) + 1" by simp
    show "take (length (heap s)) (heap ?s1) = heap s" by simp
    show "monitors ?s1 = (monitors s)(?k \<mapsto> ?a)" by simp
    show "key (heap ?s1 ! ?a) = ?k" by (rule p3)
    show "length (heap s') = length (heap s) + 1" by (rule len)
    show "monitors s' = (monitors s)(?k \<mapsto> ?a)" by (rule mp)
    show "numHandlers (heap s' ! ?a) =
        of_nat (successfulSecretAdds rs) - of_nat (successfulSecretRemoves rs)"
      by (rule cnt)
    show "sint (numHandlers (heap s' ! ?a)) =
        int (successfulSecretAdds rs) - int (successfulSecretRemoves rs)"
      if "successfulSecretRemoves rs \<le> successfulSecretAdds rs \<and>
          successfulSecretAdds rs < 2147483648"
      by (rule sg [OF that])
    show "GetKey reg = ?k" if "AddSecretResult (Inr reg) \<in> set rs" for reg
      by (rule keys [OF that])
  qed
qed

lemma example_run:
  "run exampleSharedInformer exampleCalls NewSecretMonitor = Return (exampleResults, exampleFinal)"
  by (simp add: exampleCalls_def exampleResults_def exampleFinal_def
      step_def addSecretEventHandler_def RemoveSecretEventHandler_def
      AddEventHandler_def RemoveEventHandler_def GetKey_def GetHandler_def
      NewSecretMonitor_def exampleRegistration_def exampleKey_def
      exampleSharedInformer_def newSingleItemMonitor_def exampleNew_def Let_def)

lemma example_first_add:
  "addSecretEventHandler exampleSharedInformer ''ns'' ''secret'' 1 None NewSecretMonitor =
     (Inr (exampleRegistration 0), exampleState1)"
  using exampleState1_reached by (simp add: AddSecretEventHandler_def)

lemma example_kept:
  "keptThroughout exampleSharedInformer (NewObjectKey ''ns'' ''secret'')
     [CallAddSecretEventHandler ''ns'' ''secret'' 2 None,
      CallRemoveSecretEventHandler (Some (exampleRegistration 0))] exampleState1"
  by (simp add: step_def addSecretEventHandler_def RemoveSecretEventHandler_def
      AddEventHandler_def RemoveEventHandler_def GetKey_def GetHandler_def
      exampleState1_def exampleRegistration_def exampleKey_def
      exampleSharedInformer_def newSingleItemMonitor_def exampleNew_def Let_def)

theorem one_monitor_per_identity_witness:
  "monitors (NewSecretMonitor :: exampleInformer secretMonitor) (NewObjectKey ''ns'' ''secret'') =
     None \<and>
   run exampleSharedInformer exampleCalls NewSecretMonitor =
     Return (exampleResults, exampleFinal) \<and>
   length (heap exampleState1) = 1 \<and>
   monitors exampleState1 = [NewObjectKey ''ns'' ''secret'' \<mapsto> 0] \<and>
   length (heap exampleFinal) = 1 \<and>
   monitors exampleFinal = [NewObjectKey ''ns'' ''secret'' \<mapsto> 0] \<and>
   sint (numHandlers (heap exampleFinal ! 0)) = 1"
proof -
  let ?cs = "[CallAddSecretEventHandler ''ns'' ''secret'' 2 (None :: exampleInformer option),
              CallRemoveSecretEventHandler (Some (exampleRegistration 0))]"
  have a: "monitors (NewSecretMonitor :: exampleInformer secretMonitor)
             (NewObjectKey ''ns'' ''secret'') = None"
    by (simp add: NewSecretMonitor_def)
  have b: "\<forall>c \<in> set ?cs. forKey (NewObjectKey ''ns'' ''secret'') c"
    by (simp add: GetKey_def exampleRegistration_def exampleKey_def)
  have s1: "snd (addSecretEventHandler exampleSharedInformer ''ns'' ''secret'' 1 None
              NewSecretMonitor) = exampleState1"
    by (simp only: example_first_add snd_conv)
  have c: "keptThroughout exampleSharedInformer (NewObjectKey ''ns'' ''secret'') ?cs
             (snd (addSecretEventHandler exampleSharedInformer ''ns'' ''secret'' 1 None
                NewSecretMonitor))"
    unfolding s1 by (rule example_kept)
  have d: "run exampleSharedInformer
             (CallAddSecretEventHandler ''ns'' ''secret'' 1 None # ?cs) NewSecretMonitor =
           Return (exampleResults, exampleFinal)"
    using example_run by (simp add: exampleCalls_def)
  have n: "successfulSecretAdds exampleResults = 2" "successfulSecretRemoves exampleResults = 1"
    by (simp_all add: successfulSecretAdds_def successfulSecretRemoves_def exampleResults_def)
  have l: "length (heap (NewSecretMonitor :: exampleInformer secretMonitor)) = 0"
    "monitors (NewSecretMonitor :: exampleInformer secretMonitor) = Map.empty"
    by (simp_all add: NewSecretMonitor_def)
  note th = one_monitor_per_identity [OF a b c d, unfolded s1 n l]
  have e1: "length (heap exampleState1) = 1"
    using th [THEN conjunct1] by simp
  have e2: "monitors exampleState1 = [NewObjectKey ''ns'' ''secret'' \<mapsto> 0]"
    using th [THEN conjunct2, THEN conjunct2, THEN conjunct1] by simp
  have e3: "length (heap exampleFinal) = 1"
    using th [THEN conjunct2, THEN conjunct2, THEN conjunct2, THEN conjunct2, THEN conjunct1]
    by simp
  have e4: "monitors exampleFinal = [NewObjectKey ''ns'' ''secret'' \<mapsto> 0]"
    using th [THEN conjunct2, THEN conjunct2, THEN conjunct2, THEN conjunct2, THEN conjunct2,
        THEN conjunct1]
    by simp
  have e5: "sint (numHandlers (heap exampleFinal ! 0)) = 1"
    using th [THEN conjunct2, THEN conjunct2, THEN conjunct2, THEN conjunct2, THEN conjunct2,
        THEN conjunct2, THEN conjunct2, THEN conjunct1]
    by simp
  from a example_run e1 e2 e3 e4 e5 show ?thesis by (intro conjI)
qed

subsection \<open>The states the calls build\<close>

lemma wellFormed_new: "wellFormed NewSecretMonitor"
  by (simp add: wellFormed_def NewSecretMonitor_def)

lemma effect_wellFormed:
  assumes "effect s r s'" and "wellFormed s"
  shows "wellFormed s'"
  using assms
proof (cases rule: effect.cases)
  case unchanged
  with assms(2) show ?thesis by simp
next
  case (updated k a m')
  from assms(2) updated(2) have a: "a < length (heap s)" "key (heap s ! a) = k"
    "\<not> stopped (heap s ! a)" "chanAgrees (heap s ! a)"
    by (auto simp: wellFormed_def)
  have ca: "chanAgrees m'"
    using a(4) updated(4,5) by (simp add: chanAgrees_def)
  show ?thesis
    unfolding wellFormed_def updated(1)
  proof (rule conjI; intro allI impI)
    fix k' b
    assume m: "monitors (s\<lparr>heap := (heap s)[a := m']\<rparr>) k' = Some b"
    then have mb: "monitors s k' = Some b" by simp
    with assms(2) have b: "b < length (heap s)" "key (heap s ! b) = k'" "\<not> stopped (heap s ! b)"
      by (auto simp: wellFormed_def)
    show "b < length (heap (s\<lparr>heap := (heap s)[a := m']\<rparr>)) \<and>
          key (heap (s\<lparr>heap := (heap s)[a := m']\<rparr>) ! b) = k' \<and>
          \<not> stopped (heap (s\<lparr>heap := (heap s)[a := m']\<rparr>) ! b)"
      using b a updated(3,4) by (cases "b = a") simp_all
  next
    fix b
    assume "b < length (heap (s\<lparr>heap := (heap s)[a := m']\<rparr>))"
    then have bl: "b < length (heap s)" by simp
    with assms(2) have b: "chanAgrees (heap s ! b)"
      "stopped (heap s ! b) \<or> monitors s (key (heap s ! b)) = Some b"
      by (auto simp: wellFormed_def)
    show "chanAgrees (heap (s\<lparr>heap := (heap s)[a := m']\<rparr>) ! b) \<and>
          (stopped (heap (s\<lparr>heap := (heap s)[a := m']\<rparr>) ! b) \<or>
           monitors (s\<lparr>heap := (heap s)[a := m']\<rparr>)
             (key (heap (s\<lparr>heap := (heap s)[a := m']\<rparr>) ! b)) = Some b)"
      using b bl a ca updated(2,3) by (cases "b = a") simp_all
  qed
next
  case (allocated k m')
  have ca: "chanAgrees m'"
    using allocated(4,5) by (simp add: chanAgrees_def)
  let ?s' = "s\<lparr>heap := heap s @ [m'], monitors := (monitors s)(k \<mapsto> length (heap s))\<rparr>"
  show ?thesis
    unfolding wellFormed_def allocated(1)
  proof (rule conjI; intro allI impI)
    fix k' b
    assume m: "monitors ?s' k' = Some b"
    show "b < length (heap ?s') \<and> key (heap ?s' ! b) = k' \<and> \<not> stopped (heap ?s' ! b)"
    proof (cases "k' = k")
      case True
      with m have "b = length (heap s)" by simp
      with True allocated(3,4) show ?thesis by simp
    next
      case False
      with m have "monitors s k' = Some b" by simp
      with assms(2) have "b < length (heap s)" "key (heap s ! b) = k'" "\<not> stopped (heap s ! b)"
        by (auto simp: wellFormed_def)
      then show ?thesis by (simp add: nth_append)
    qed
  next
    fix b
    assume bl: "b < length (heap ?s')"
    show "chanAgrees (heap ?s' ! b) \<and>
          (stopped (heap ?s' ! b) \<or> monitors ?s' (key (heap ?s' ! b)) = Some b)"
    proof (cases "b = length (heap s)")
      case True
      with ca allocated(3) show ?thesis by simp
    next
      case False
      with bl have b: "b < length (heap s)" by simp
      with assms(2) have w: "chanAgrees (heap s ! b)"
        "stopped (heap s ! b) \<or> monitors s (key (heap s ! b)) = Some b"
        by (auto simp: wellFormed_def)
      from w(2) allocated(2) have "stopped (heap s ! b) \<or> key (heap s ! b) \<noteq> k"
        by auto
      with w b show ?thesis by (auto simp: nth_append)
    qed
  qed
next
  case (tornDown k a m')
  from assms(2) tornDown(2) have a: "a < length (heap s)" "key (heap s ! a) = k"
    by (auto simp: wellFormed_def)
  have ca: "chanAgrees m'"
    using tornDown(4,5) by (simp add: chanAgrees_def)
  let ?s' = "s\<lparr>heap := (heap s)[a := m'], monitors := (monitors s)(k := None)\<rparr>"
  show ?thesis
    unfolding wellFormed_def tornDown(1)
  proof (rule conjI; intro allI impI)
    fix k' b
    assume m: "monitors ?s' k' = Some b"
    then have kk: "k' \<noteq> k" and mb: "monitors s k' = Some b"
      by (auto split: if_splits)
    with assms(2) have b: "b < length (heap s)" "key (heap s ! b) = k'" "\<not> stopped (heap s ! b)"
      by (auto simp: wellFormed_def)
    from b(2) a(2) kk have "b \<noteq> a" by auto
    with b show "b < length (heap ?s') \<and> key (heap ?s' ! b) = k' \<and> \<not> stopped (heap ?s' ! b)"
      by simp
  next
    fix b
    assume "b < length (heap ?s')"
    then have bl: "b < length (heap s)" by simp
    with assms(2) have w: "chanAgrees (heap s ! b)"
      "stopped (heap s ! b) \<or> monitors s (key (heap s ! b)) = Some b"
      by (auto simp: wellFormed_def)
    show "chanAgrees (heap ?s' ! b) \<and>
          (stopped (heap ?s' ! b) \<or> monitors ?s' (key (heap ?s' ! b)) = Some b)"
    proof (cases "b = a")
      case True
      with a ca tornDown(4) show ?thesis by simp
    next
      case False
      have "key (heap s ! b) \<noteq> k" if "monitors s (key (heap s ! b)) = Some b"
        using that tornDown(2) False by auto
      with False w bl show ?thesis by auto
    qed
  qed
qed


lemma step_effect:
  assumes "wellFormed s"
  shows "\<exists>r s'. step I c s = Return (r, s') \<and> effect s r s'"
proof (cases c)
  case (CallAddSecretEventHandler namespace secretName h f)
  let ?k = "NewObjectKey namespace secretName"
  show ?thesis
  proof (cases "monitors s ?k")
    case None
    let ?m0 = "newSingleItemMonitor ?k
                 (case f of None \<Rightarrow> NewSharedInformer I namespace secretName | Some si \<Rightarrow> si)"
    obtain r0 m' where add: "AddEventHandler I h ?m0 = (r0, m')"
      by (cases "AddEventHandler I h ?m0")
    let ?s' = "s\<lparr>heap := heap s @ [m'], monitors := (monitors s)(?k \<mapsto> length (heap s))\<rparr>"
    from addSecretEventHandler_new [OF None add] CallAddSecretEventHandler
    have st: "step I c s = Return (AddSecretResult r0, ?s')"
      by (simp add: step_def)
    from AddEventHandler_fields [OF add]
    have f: "key m' = ?k" "\<not> stopped m'" "stopCh m' = Open"
      by (simp_all add: newSingleItemMonitor_def)
    from AddEventHandler_numHandlers [OF add]
    have n: "numHandlers m' = (if addSecretFailed (AddSecretResult r0) then 0 else 1)"
      by (cases r0) (simp_all add: newSingleItemMonitor_def)
    have "effect s (AddSecretResult r0) ?s'"
      using None f n by (rule effect.allocated)
    with st show ?thesis by blast
  next
    case (Some a)
    obtain r0 m' where add: "AddEventHandler I h (heap s ! a) = (r0, m')"
      by (cases "AddEventHandler I h (heap s ! a)")
    let ?s' = "s\<lparr>heap := (heap s)[a := m']\<rparr>"
    from addSecretEventHandler_existing [OF Some add] CallAddSecretEventHandler
    have st: "step I c s = Return (AddSecretResult r0, ?s')"
      by (simp add: step_def)
    from AddEventHandler_fields [OF add]
    have f: "key m' = key (heap s ! a)" "stopped m' = stopped (heap s ! a)"
      "stopCh m' = stopCh (heap s ! a)"
      by simp_all
    from AddEventHandler_numHandlers [OF add]
    have n: "numHandlers m' =
        numHandlers (heap s ! a) + (if addSecretSucceeded (AddSecretResult r0) then 1 else 0)
          - (if removeSecretSucceeded (AddSecretResult r0) then 1 else 0)"
      by (cases r0) simp_all
    have p: "removeSecretSucceeded (AddSecretResult r0) \<longrightarrow> 0 < sint (numHandlers m')"
      by simp
    have "effect s (AddSecretResult r0) ?s'"
      using Some f n p by (rule effect.updated)
    with st show ?thesis by blast
  qed
next
  case (CallRemoveSecretEventHandler hr)
  show ?thesis
  proof (cases hr)
    case None
    with CallRemoveSecretEventHandler
    have "step I c s = Return (RemoveSecretResult (Some SecretHandlerIsNil), s)"
      by (simp add: step_def RemoveSecretEventHandler_def)
    then show ?thesis using effect.unchanged by blast
  next
    case (Some h)
    note hr = this
    show ?thesis
    proof (cases "monitors s (GetKey h)")
      case None
      with CallRemoveSecretEventHandler hr
      have "step I c s = Return (RemoveSecretResult None, s)"
        by (simp add: step_def RemoveSecretEventHandler_def)
      then show ?thesis using effect.unchanged by blast
    next
      case (Some a)
      note ma = this
      from assms ma have wa: "a < length (heap s)" "key (heap s ! a) = GetKey h"
        "chanAgrees (heap s ! a)"
        by (auto simp: wellFormed_def)
      obtain e m' where rem: "RemoveEventHandler I (Some h) (heap s ! a) = Return (e, m')"
        using RemoveEventHandler_Some_returns by blast
      from RemoveEventHandler_fields [OF rem]
      have f: "key m' = key (heap s ! a)" "stopped m' = stopped (heap s ! a)"
        "stopCh m' = stopCh (heap s ! a)"
        by simp_all
      from RemoveEventHandler_numHandlers [OF rem]
      have n0: "numHandlers m' = numHandlers (heap s ! a) - (if e = None then 1 else 0)" .
      show ?thesis
      proof (cases e)
        case (Some err)
        let ?s' = "s\<lparr>heap := (heap s)[a := m']\<rparr>"
        from CallRemoveSecretEventHandler hr ma rem Some
        have st: "step I c s = Return (RemoveSecretResult (Some err), ?s')"
          by (simp add: step_def RemoveSecretEventHandler_def)
        have n: "numHandlers m' =
            numHandlers (heap s ! a)
              + (if addSecretSucceeded (RemoveSecretResult (Some err)) then 1 else 0)
              - (if removeSecretSucceeded (RemoveSecretResult (Some err)) then 1 else 0)"
          using n0 Some by simp
        have p: "removeSecretSucceeded (RemoveSecretResult (Some err)) \<longrightarrow>
            0 < sint (numHandlers m')"
          by simp
        have "effect s (RemoveSecretResult (Some err)) ?s'"
          using ma f n p by (rule effect.updated)
        with st show ?thesis by blast
      next
        case None
        from RemoveEventHandler_success_running [of I "Some h" "heap s ! a" m'] rem None
        have run: "\<not> stopped (heap s ! a)" by simp
        show ?thesis
        proof (cases "sint (numHandlers m') \<le> 0")
          case True
          let ?m'' = "m'\<lparr>stopped := True, stopCh := Closed\<rparr>"
          let ?s' = "s\<lparr>heap := (heap s)[a := ?m''], monitors := (monitors s)(GetKey h := None)\<rparr>"
          from run wa(3) f have "stopCh m' = Open" "\<not> stopped m'"
            by (cases "stopCh m'"; simp add: chanAgrees_def)+
          then have stop: "StopInformer m' = Return (True, ?m'')"
            by (simp add: StopInformer_def)
          from CallRemoveSecretEventHandler hr ma rem None True stop
          have st: "step I c s = Return (RemoveSecretResult None, ?s')"
            by (simp add: step_def RemoveSecretEventHandler_def)
          have k: "key ?m'' = GetKey h" "stopped ?m''" "stopCh ?m'' = Closed"
            using f wa(2) by simp_all
          have "effect s (RemoveSecretResult None) ?s'"
            using ma k by (rule effect.tornDown)
          with st show ?thesis by blast
        next
          case False
          let ?s' = "s\<lparr>heap := (heap s)[a := m']\<rparr>"
          from CallRemoveSecretEventHandler hr ma rem None False
          have st: "step I c s = Return (RemoveSecretResult None, ?s')"
            by (simp add: step_def RemoveSecretEventHandler_def)
          have n: "numHandlers m' =
              numHandlers (heap s ! a)
                + (if addSecretSucceeded (RemoveSecretResult None) then 1 else 0)
                - (if removeSecretSucceeded (RemoveSecretResult None) then 1 else 0)"
            using n0 None by simp
          have p: "removeSecretSucceeded (RemoveSecretResult None) \<longrightarrow> 0 < sint (numHandlers m')"
            using False by simp
          have "effect s (RemoveSecretResult None) ?s'"
            using ma f n p by (rule effect.updated)
          with st show ?thesis by blast
        qed
      qed
    qed
  qed
next
  case (CallGetSecret hr)
  then have "step I c s = Return (GetSecretResult (GetSecret I hr s), s)"
    by (simp add: step_def)
  then show ?thesis using effect.unchanged by blast
qed


lemma effect_counters:
  assumes "effect s r s'" and "wellFormed s" and "countersBetween lo n s"
    and "0 \<le> lo" and "lo \<le> 1" and "n < 2147483647"
    and "lo = 1 \<longrightarrow> \<not> addSecretFailed r"
  shows "countersBetween lo (Suc n) s'"
  using assms(1)
proof (cases rule: effect.cases)
  case unchanged
  with assms(3) show ?thesis by (fastforce simp: countersBetween_def)
next
  case (updated k a m')
  from assms(2) updated(2) have al: "a < length (heap s)"
    by (auto simp: wellFormed_def)
  from assms(3) updated(2)
  have xa: "lo \<le> sint (numHandlers (heap s ! a))" "sint (numHandlers (heap s ! a)) \<le> int n"
    by (auto simp: countersBetween_def)
  have excl: "\<not> (addSecretSucceeded r \<and> removeSecretSucceeded r)"
    by (cases r rule: addSecretSucceeded.cases) simp_all
  have ma: "lo \<le> sint (numHandlers m') \<and> sint (numHandlers m') \<le> int (Suc n)"
  proof (cases "addSecretSucceeded r")
    case True
    with excl updated(6) have "numHandlers m' = numHandlers (heap s ! a) + 1" by simp
    moreover have "sint (numHandlers (heap s ! a) + 1) = sint (numHandlers (heap s ! a)) + 1"
      using xa(2) assms(6) by (intro sint_inc) linarith
    ultimately show ?thesis using xa by simp
  next
    case False
    note noadd = this
    show ?thesis
    proof (cases "removeSecretSucceeded r")
      case True
      with noadd updated(6) have "numHandlers m' = numHandlers (heap s ! a) - 1" by simp
      moreover have "sint (numHandlers (heap s ! a) - 1) = sint (numHandlers (heap s ! a)) - 1"
        using xa(1) assms(4) by (intro sint_dec) linarith
      moreover from True updated(7) have "0 < sint (numHandlers m')" by simp
      ultimately show ?thesis using xa assms(5) by simp
    next
      case False
      with noadd updated(6) have "numHandlers m' = numHandlers (heap s ! a)" by simp
      with xa show ?thesis by simp
    qed
  qed
  show ?thesis
    unfolding countersBetween_def updated(1)
  proof (intro allI impI)
    fix k' b
    assume "monitors (s\<lparr>heap := (heap s)[a := m']\<rparr>) k' = Some b"
    then have mb: "monitors s k' = Some b" by simp
    with assms(3)
    have xb: "lo \<le> sint (numHandlers (heap s ! b))" "sint (numHandlers (heap s ! b)) \<le> int n"
      by (auto simp: countersBetween_def)
    show "lo \<le> sint (numHandlers (heap (s\<lparr>heap := (heap s)[a := m']\<rparr>) ! b)) \<and>
          sint (numHandlers (heap (s\<lparr>heap := (heap s)[a := m']\<rparr>) ! b)) \<le> int (Suc n)"
      using ma xb al by (cases "b = a") simp_all
  qed
next
  case (allocated k m')
  let ?s' = "s\<lparr>heap := heap s @ [m'], monitors := (monitors s)(k \<mapsto> length (heap s))\<rparr>"
  have mn: "lo \<le> sint (numHandlers m') \<and> sint (numHandlers m') \<le> int (Suc n)"
  proof (cases "addSecretFailed r")
    case True
    with assms(7) assms(5) have "lo \<le> 0" by linarith
    with True allocated(6) show ?thesis by simp
  next
    case False
    with allocated(6) assms(5) show ?thesis by simp
  qed
  show ?thesis
    unfolding countersBetween_def allocated(1)
  proof (intro allI impI)
    fix k' b
    assume m: "monitors ?s' k' = Some b"
    show "lo \<le> sint (numHandlers (heap ?s' ! b)) \<and>
          sint (numHandlers (heap ?s' ! b)) \<le> int (Suc n)"
    proof (cases "k' = k")
      case True
      with m have "b = length (heap s)" by simp
      with mn show ?thesis by simp
    next
      case False
      with m have mb: "monitors s k' = Some b" by simp
      with assms(2) have "b < length (heap s)" by (auto simp: wellFormed_def)
      moreover from mb assms(3)
      have "lo \<le> sint (numHandlers (heap s ! b))" "sint (numHandlers (heap s ! b)) \<le> int n"
        by (auto simp: countersBetween_def)
      ultimately show ?thesis by (simp add: nth_append)
    qed
  qed
next
  case (tornDown k a m')
  let ?s' = "s\<lparr>heap := (heap s)[a := m'], monitors := (monitors s)(k := None)\<rparr>"
  from assms(2) tornDown(2) have a: "key (heap s ! a) = k"
    by (auto simp: wellFormed_def)
  show ?thesis
    unfolding countersBetween_def tornDown(1)
  proof (intro allI impI)
    fix k' b
    assume m: "monitors ?s' k' = Some b"
    then have kk: "k' \<noteq> k" and mb: "monitors s k' = Some b"
      by (auto split: if_splits)
    from mb assms(2) have "key (heap s ! b) = k'" by (auto simp: wellFormed_def)
    with a kk have ne: "b \<noteq> a" by auto
    from mb assms(3)
    have "lo \<le> sint (numHandlers (heap s ! b))" "sint (numHandlers (heap s ! b)) \<le> int n"
      by (auto simp: countersBetween_def)
    with ne show "lo \<le> sint (numHandlers (heap ?s' ! b)) \<and>
          sint (numHandlers (heap ?s' ! b)) \<le> int (Suc n)"
      by simp
  qed
qed

lemma run_wellFormed:
  "wellFormed s \<Longrightarrow> \<exists>rs s'. run I cs s = Return (rs, s') \<and> wellFormed s'"
proof (induction cs arbitrary: s)
  case Nil
  then show ?case by simp
next
  case (Cons c cs)
  from step_effect [OF Cons.prems, of I c] obtain r s1 where
    st: "step I c s = Return (r, s1)" and ef: "effect s r s1"
    by blast
  from effect_wellFormed [OF ef Cons.prems] have "wellFormed s1" .
  from Cons.IH [OF this] obtain rs s' where
    "run I cs s1 = Return (rs, s')" "wellFormed s'"
    by blast
  with st show ?case by simp
qed

lemma reachable_mapped:
  assumes "run I cs NewSecretMonitor = Return (rs, s)" and "monitors s k = Some a"
  shows "a < length (heap s) \<and> key (heap s ! a) = k \<and> \<not> stopped (heap s ! a) \<and>
         stopCh (heap s ! a) = Open"
proof -
  from run_wellFormed [OF wellFormed_new, of I cs] assms(1) have wf: "wellFormed s"
    by auto
  with assms(2) have m: "a < length (heap s)" "key (heap s ! a) = k" "\<not> stopped (heap s ! a)"
    by (simp_all add: wellFormed_def)
  with wf have "chanAgrees (heap s ! a)"
    by (simp add: wellFormed_def)
  with m(3) have "stopCh (heap s ! a) = Open"
    by (cases "stopCh (heap s ! a)") (simp_all add: chanAgrees_def)
  with m show ?thesis by simp
qed

lemma run_counters:
  assumes "run I cs s = Return (rs, s')"
    and "wellFormed s" and "countersBetween lo n s"
    and "0 \<le> lo" and "lo \<le> 1" and "n + length cs < 2147483648"
    and "lo = 1 \<longrightarrow> (\<forall>r \<in> set rs. \<not> addSecretFailed r)"
  shows "countersBetween lo (n + length cs) s'"
  using assms
proof (induction cs arbitrary: s rs n)
  case Nil
  then show ?case by simp
next
  case (Cons c cs)
  from step_effect [OF Cons.prems(2), of I c] obtain r s1 where
    st: "step I c s = Return (r, s1)" and ef: "effect s r s1"
    by blast
  from Cons.prems(1) st obtain rs1 where
    rest: "run I cs s1 = Return (rs1, s')" and rs: "rs = r # rs1"
    by (auto split: outcome.splits prod.splits)
  from effect_wellFormed [OF ef Cons.prems(2)] have w1: "wellFormed s1" .
  have n: "n < 2147483647" using Cons.prems(6) by simp
  have r: "lo = 1 \<longrightarrow> \<not> addSecretFailed r" using Cons.prems(7) rs by simp
  from effect_counters [OF ef Cons.prems(2,3,4,5) n r]
  have c1: "countersBetween lo (Suc n) s1" .
  have b: "Suc n + length cs < 2147483648" using Cons.prems(6) by simp
  have rr: "lo = 1 \<longrightarrow> (\<forall>r \<in> set rs1. \<not> addSecretFailed r)" using Cons.prems(7) rs by simp
  from Cons.IH [OF rest w1 c1 Cons.prems(4,5) b rr] show ?case by simp
qed

subsection \<open>An informer that accepts\<close>

lemma AddEventHandler_accepting:
  assumes "accepting I" and "\<not> stopped i" and "AddEventHandler I h i = (r, i')"
  shows "\<not> isl r"
proof -
  from assms(1) obtain reg si' where "InformerAddEventHandler I h (informer i) = (Inr reg, si')"
    unfolding accepting_def by blast
  with assms(2,3) show ?thesis by (auto simp: AddEventHandler_def)
qed

lemma step_accepting:
  assumes "wellFormed s" and "accepting I" and "step I c s = Return (r, s')"
  shows "\<not> addSecretFailed r"
proof (cases c)
  case (CallAddSecretEventHandler namespace secretName h f)
  let ?k = "NewObjectKey namespace secretName"
  show ?thesis
  proof (cases "monitors s ?k")
    case None
    let ?m0 = "newSingleItemMonitor ?k
                 (case f of None \<Rightarrow> NewSharedInformer I namespace secretName | Some si \<Rightarrow> si)"
    obtain r0 m' where add: "AddEventHandler I h ?m0 = (r0, m')"
      by (cases "AddEventHandler I h ?m0")
    have "\<not> stopped ?m0" by (simp add: newSingleItemMonitor_def)
    from AddEventHandler_accepting [OF assms(2) this add] have ok: "\<not> isl r0" .
    from addSecretEventHandler_new [OF None add] CallAddSecretEventHandler assms(3)
    have "r = AddSecretResult r0" by (simp add: step_def)
    with ok show ?thesis by (cases r0) simp_all
  next
    case (Some a)
    obtain r0 m' where add: "AddEventHandler I h (heap s ! a) = (r0, m')"
      by (cases "AddEventHandler I h (heap s ! a)")
    from assms(1) Some have "\<not> stopped (heap s ! a)" by (simp add: wellFormed_def)
    from AddEventHandler_accepting [OF assms(2) this add] have ok: "\<not> isl r0" .
    from addSecretEventHandler_existing [OF Some add] CallAddSecretEventHandler assms(3)
    have "r = AddSecretResult r0" by (simp add: step_def)
    with ok show ?thesis by (cases r0) simp_all
  qed
next
  case (CallRemoveSecretEventHandler hr)
  with assms(3) show ?thesis
    by (auto simp: step_def split: outcome.splits prod.splits)
next
  case (CallGetSecret hr)
  with assms(3) show ?thesis by (auto simp: step_def)
qed

lemma run_accepting:
  assumes "wellFormed s" and "accepting I" and "run I cs s = Return (rs, s')"
  shows "\<forall>r \<in> set rs. \<not> addSecretFailed r"
  using assms
proof (induction cs arbitrary: s rs)
  case Nil
  then show ?case by simp
next
  case (Cons c cs)
  from step_effect [OF Cons.prems(1), of I c] obtain r s1 where
    st: "step I c s = Return (r, s1)" and ef: "effect s r s1"
    by blast
  from Cons.prems(3) st obtain rs1 where
    rest: "run I cs s1 = Return (rs1, s')" and rs: "rs = r # rs1"
    by (auto split: outcome.splits prod.splits)
  from effect_wellFormed [OF ef Cons.prems(1)] have w1: "wellFormed s1" .
  from step_accepting [OF Cons.prems(1,2) st] have "\<not> addSecretFailed r" .
  with Cons.IH [OF w1 Cons.prems(2) rest] rs show ?case by simp
qed

subsection \<open>The membership invariant\<close>

text \<open>
  For any informer: every run of fewer than \<open>2^31\<close> calls from the empty \<open>secretMonitor\<close>
  returns, and in the state it reaches a key is in the map exactly when a monitor
  allocated for it has not been stopped, no two monitors that have not been stopped
  carry the same key, and the counter of every mapped monitor is at least 0, and
  greater than 0 when no add of the run has failed.
\<close>

lemma states_any_informer:
  assumes "length cs < 2147483648"
  shows "\<exists>rs s. run I cs NewSecretMonitor = Return (rs, s) \<and>
           (\<forall>k. (monitors s k \<noteq> None) =
                 (\<exists>a < length (heap s). key (heap s ! a) = k \<and> \<not> stopped (heap s ! a))) \<and>
           (\<forall>a b. a < length (heap s) \<and> b < length (heap s) \<and>
                  key (heap s ! a) = key (heap s ! b) \<and>
                  \<not> stopped (heap s ! a) \<and> \<not> stopped (heap s ! b) \<longrightarrow> a = b) \<and>
           (\<forall>k a. monitors s k = Some a \<longrightarrow> 0 \<le> sint (numHandlers (heap s ! a))) \<and>
           ((\<forall>r \<in> set rs. \<not> addSecretFailed r) \<longrightarrow>
              (\<forall>k a. monitors s k = Some a \<longrightarrow> 0 < sint (numHandlers (heap s ! a))))"
proof -
  from run_wellFormed [OF wellFormed_new, of I cs] obtain rs s where
    run: "run I cs NewSecretMonitor = Return (rs, s)" and wf: "wellFormed s"
    by blast
  have start: "countersBetween lo 0 (NewSecretMonitor :: 'a secretMonitor)" for lo
    by (simp add: countersBetween_def NewSecretMonitor_def)
  have len: "0 + length cs < 2147483648" using assms by simp
  have c0: "countersBetween 0 (0 + length cs) s"
    by (rule run_counters [OF run wellFormed_new start _ _ len]) simp_all
  have c1: "countersBetween 1 (0 + length cs) s" if "\<forall>r \<in> set rs. \<not> addSecretFailed r"
    by (rule run_counters [OF run wellFormed_new start _ _ len]) (simp_all add: that)
  have mapped: "a < length (heap s) \<and> key (heap s ! a) = k \<and> \<not> stopped (heap s ! a)"
    if "monitors s k = Some a" for k a
    using wf that by (simp add: wellFormed_def)
  have running: "monitors s (key (heap s ! a)) = Some a"
    if "a < length (heap s)" "\<not> stopped (heap s ! a)" for a
    using wf that by (auto simp: wellFormed_def)
  have iff: "(monitors s k \<noteq> None) =
      (\<exists>a < length (heap s). key (heap s ! a) = k \<and> \<not> stopped (heap s ! a))" for k
  proof
    assume "monitors s k \<noteq> None"
    then obtain a where "monitors s k = Some a" by auto
    from mapped [OF this]
    show "\<exists>a < length (heap s). key (heap s ! a) = k \<and> \<not> stopped (heap s ! a)"
      by auto
  next
    assume "\<exists>a < length (heap s). key (heap s ! a) = k \<and> \<not> stopped (heap s ! a)"
    then obtain a where "a < length (heap s)" "key (heap s ! a) = k" "\<not> stopped (heap s ! a)"
      by auto
    with running [of a] show "monitors s k \<noteq> None" by auto
  qed
  have uniq: "a = b"
    if "a < length (heap s) \<and> b < length (heap s) \<and> key (heap s ! a) = key (heap s ! b) \<and>
        \<not> stopped (heap s ! a) \<and> \<not> stopped (heap s ! b)" for a b
  proof -
    have ra: "monitors s (key (heap s ! a)) = Some a"
      by (rule running) (use that in blast)+
    have rb: "monitors s (key (heap s ! b)) = Some b"
      by (rule running) (use that in blast)+
    from that have e: "key (heap s ! a) = key (heap s ! b)" by blast
    from ra rb show ?thesis unfolding e by simp
  qed
  have nonneg: "0 \<le> sint (numHandlers (heap s ! a))" if "monitors s k = Some a" for k a
    using c0 [unfolded countersBetween_def, THEN spec, THEN spec, THEN mp, OF that]
    by (rule conjunct1)
  have pos: "0 < sint (numHandlers (heap s ! a))"
    if "\<forall>r \<in> set rs. \<not> addSecretFailed r" "monitors s k = Some a" for k a
    using c1 [OF that(1), unfolded countersBetween_def, THEN spec, THEN spec, THEN mp, OF that(2)]
    by simp
  show ?thesis
  proof (intro exI conjI allI impI)
    show "run I cs NewSecretMonitor = Return (rs, s)" by (rule run)
    show "(monitors s k \<noteq> None) =
        (\<exists>a < length (heap s). key (heap s ! a) = k \<and> \<not> stopped (heap s ! a))" for k
      by (rule iff)
    show "a = b"
      if "a < length (heap s) \<and> b < length (heap s) \<and> key (heap s ! a) = key (heap s ! b) \<and>
          \<not> stopped (heap s ! a) \<and> \<not> stopped (heap s ! b)" for a b
      by (rule uniq [OF that])
    show "0 \<le> sint (numHandlers (heap s ! a))" if "monitors s k = Some a" for k a
      by (rule nonneg [OF that])
    show "0 < sint (numHandlers (heap s ! a))"
      if "\<forall>r \<in> set rs. \<not> addSecretFailed r" "monitors s k = Some a" for k a
      by (rule pos [OF that])
  qed
qed

text \<open>
  Claim C1. The informer accepts, as the one \<open>AddSecretEventHandler\<close> builds does. Every
  run of fewer than \<open>2^31\<close> calls from the empty \<open>secretMonitor\<close> returns, and in the
  state it reaches: a key is in the map exactly when a monitor allocated for it has a
  counter greater than 0 and has not been stopped; the monitor a key is mapped to
  carries that key, has a counter greater than 0 and has not been stopped; and no two
  monitors that have not been stopped carry the same key.
\<close>

theorem membership_invariant:
  assumes "accepting I" and "length cs < 2147483648"
  shows "\<exists>rs s. run I cs NewSecretMonitor = Return (rs, s) \<and>
           (\<forall>k. (monitors s k \<noteq> None) =
                 (\<exists>a < length (heap s). key (heap s ! a) = k \<and>
                    0 < sint (numHandlers (heap s ! a)) \<and> \<not> stopped (heap s ! a))) \<and>
           (\<forall>k a. monitors s k = Some a \<longrightarrow>
                 a < length (heap s) \<and> key (heap s ! a) = k \<and>
                 0 < sint (numHandlers (heap s ! a)) \<and> \<not> stopped (heap s ! a)) \<and>
           (\<forall>a b. a < length (heap s) \<and> b < length (heap s) \<and>
                  key (heap s ! a) = key (heap s ! b) \<and>
                  \<not> stopped (heap s ! a) \<and> \<not> stopped (heap s ! b) \<longrightarrow> a = b)"
proof -
  from run_wellFormed [OF wellFormed_new, of I cs] obtain rs s where
    run: "run I cs NewSecretMonitor = Return (rs, s)" and wf: "wellFormed s"
    by blast
  have start: "countersBetween 1 0 (NewSecretMonitor :: 'a secretMonitor)"
    by (simp add: countersBetween_def NewSecretMonitor_def)
  have len: "0 + length cs < 2147483648" using assms(2) by simp
  from run_accepting [OF wellFormed_new assms(1) run]
  have ok: "\<forall>r \<in> set rs. \<not> addSecretFailed r" .
  have c1: "countersBetween 1 (0 + length cs) s"
    by (rule run_counters [OF run wellFormed_new start _ _ len]) (simp_all add: ok)
  have mapped: "a < length (heap s) \<and> key (heap s ! a) = k \<and>
      0 < sint (numHandlers (heap s ! a)) \<and> \<not> stopped (heap s ! a)"
    if "monitors s k = Some a" for k a
  proof -
    from wf that have "a < length (heap s)" "key (heap s ! a) = k" "\<not> stopped (heap s ! a)"
      by (simp_all add: wellFormed_def)
    moreover from c1 [unfolded countersBetween_def, THEN spec, THEN spec, THEN mp, OF that]
    have "0 < sint (numHandlers (heap s ! a))" by simp
    ultimately show ?thesis by simp
  qed
  have running: "monitors s (key (heap s ! a)) = Some a"
    if "a < length (heap s)" "\<not> stopped (heap s ! a)" for a
    using wf that by (auto simp: wellFormed_def)
  have iff: "(monitors s k \<noteq> None) =
      (\<exists>a < length (heap s). key (heap s ! a) = k \<and>
         0 < sint (numHandlers (heap s ! a)) \<and> \<not> stopped (heap s ! a))" for k
  proof
    assume "monitors s k \<noteq> None"
    then obtain a where "monitors s k = Some a" by auto
    from mapped [OF this]
    show "\<exists>a < length (heap s). key (heap s ! a) = k \<and>
        0 < sint (numHandlers (heap s ! a)) \<and> \<not> stopped (heap s ! a)"
      by auto
  next
    assume "\<exists>a < length (heap s). key (heap s ! a) = k \<and>
        0 < sint (numHandlers (heap s ! a)) \<and> \<not> stopped (heap s ! a)"
    then obtain a where "a < length (heap s)" "key (heap s ! a) = k" "\<not> stopped (heap s ! a)"
      by auto
    with running [of a] show "monitors s k \<noteq> None" by auto
  qed
  have uniq: "a = b"
    if "a < length (heap s) \<and> b < length (heap s) \<and> key (heap s ! a) = key (heap s ! b) \<and>
        \<not> stopped (heap s ! a) \<and> \<not> stopped (heap s ! b)" for a b
  proof -
    have ra: "monitors s (key (heap s ! a)) = Some a"
      by (rule running) (use that in blast)+
    have rb: "monitors s (key (heap s ! b)) = Some b"
      by (rule running) (use that in blast)+
    from that have e: "key (heap s ! a) = key (heap s ! b)" by blast
    from ra rb show ?thesis unfolding e by simp
  qed
  show ?thesis
  proof (intro exI conjI allI impI)
    show "run I cs NewSecretMonitor = Return (rs, s)" by (rule run)
    show "(monitors s k \<noteq> None) =
        (\<exists>a < length (heap s). key (heap s ! a) = k \<and>
           0 < sint (numHandlers (heap s ! a)) \<and> \<not> stopped (heap s ! a))" for k
      by (rule iff)
    show "a < length (heap s)" if "monitors s k = Some a" for k a
      using mapped [OF that] by blast
    show "key (heap s ! a) = k" if "monitors s k = Some a" for k a
      using mapped [OF that] by blast
    show "0 < sint (numHandlers (heap s ! a))" if "monitors s k = Some a" for k a
      using mapped [OF that] by blast
    show "\<not> stopped (heap s ! a)" if "monitors s k = Some a" for k a
      using mapped [OF that] by blast
    show "a = b"
      if "a < length (heap s) \<and> b < length (heap s) \<and> key (heap s ! a) = key (heap s ! b) \<and>
          \<not> stopped (heap s ! a) \<and> \<not> stopped (heap s ! b)" for a b
      by (rule uniq [OF that])
  qed
qed

lemma example_accepting: "accepting exampleSharedInformer"
  by (simp add: accepting_def exampleSharedInformer_def)

theorem membership_invariant_witness:
  "accepting exampleSharedInformer \<and> length exampleCalls < 2147483648 \<and>
   run exampleSharedInformer exampleCalls NewSecretMonitor =
     Return (exampleResults, exampleFinal) \<and>
   monitors exampleFinal exampleKey = Some 0 \<and>
   key (heap exampleFinal ! 0) = exampleKey \<and>
   0 < sint (numHandlers (heap exampleFinal ! 0)) \<and>
   \<not> stopped (heap exampleFinal ! 0)"
proof -
  have len: "length exampleCalls < 2147483648"
    by (simp add: exampleCalls_def)
  from membership_invariant [OF example_accepting len] obtain rs s where
    run: "run exampleSharedInformer exampleCalls NewSecretMonitor = Return (rs, s)" and
    mapped: "\<forall>k a. monitors s k = Some a \<longrightarrow>
               a < length (heap s) \<and> key (heap s ! a) = k \<and>
               0 < sint (numHandlers (heap s ! a)) \<and> \<not> stopped (heap s ! a)"
    by blast
  from run example_run have eq: "s = exampleFinal" by simp
  have m: "monitors exampleFinal exampleKey = Some 0"
    by (simp add: exampleFinal_def)
  note q = mapped [unfolded eq, THEN spec, of exampleKey, THEN spec, of 0, THEN mp, OF m]
  from q have q1: "key (heap exampleFinal ! 0) = exampleKey"
    and q2: "0 < sint (numHandlers (heap exampleFinal ! 0))"
    and q3: "\<not> stopped (heap exampleFinal ! 0)"
    by blast+
  from example_accepting len example_run m q1 q2 q3 show ?thesis by (intro conjI)
qed

end
